theory Spec2Isabelle
  imports Complex_Main
begin

section \<open>Python values and errors\<close>

text \<open>
  The module \<^verbatim>\<open>automation/vapoursynth/aegisub_vs.py\<close> works on Python strings, lists
  and unbounded integers. Strings are modelled as \<^typ>\<open>string\<close>, integers as
  \<^typ>\<open>int\<close>, and every exception the code can raise is a value of \<open>error\<close>; a
  function that may raise returns \<open>error + 'a\<close>, with \<open>Inl\<close> for the exception.
  Only the class of an exception is kept, except for \<^verbatim>\<open>vs.Error\<close>, whose message
  names the missing plugin.
\<close>

datatype error =
    ValueError
  | IndexError
  | ZeroDivisionError
  | AttributeError
  | VsError string
  | FrameError

text \<open>\<^verbatim>\<open>len(s)\<close> as a Python integer.\<close>

definition len :: "'a list \<Rightarrow> int" where
  "len xs = int (length xs)"

text \<open>
  The slice \<^verbatim>\<open>s[k:]\<close>: a negative start counts from the end and is clamped at the
  beginning of the sequence.
\<close>

definition slice_from :: "'a list \<Rightarrow> int \<Rightarrow> 'a list" where
  "slice_from s k = (if k < 0 then drop (nat (len s + k)) s else drop (nat k) s)"

text \<open>The slice \<^verbatim>\<open>s[:k]\<close>, with the same treatment of a negative bound.\<close>

definition slice_to :: "'a list \<Rightarrow> int \<Rightarrow> 'a list" where
  "slice_to s k = (if k < 0 then take (nat (len s + k)) s else take (nat k) s)"

text \<open>\<^verbatim>\<open>s.find(c)\<close> for a one-character needle: the first position, or -1.\<close>

fun find_char :: "string \<Rightarrow> char \<Rightarrow> int" where
  "find_char [] c = -1"
| "find_char (x # xs) c =
     (if x = c then 0 else (let r = find_char xs c in if r < 0 then -1 else r + 1))"

section \<open>Cache and keyframe file names\<close>

text \<open>
  \<^verbatim>\<open>
  def make_lwi_cache_filename(filename: str) -> str:
      max_len = 254
      extension = ".lwi"
      if len(filename) + len(extension) > max_len:
          filename = filename[-(max_len + len(extension)):]
      return "".join(("_" if c in "/\\:" else c) for c in filename) + extension
  \<close>
\<close>

definition max_len :: int where
  "max_len = 254"

definition extension :: string where
  "extension = ''.lwi''"

definition make_lwi_cache_filename :: "string \<Rightarrow> string" where
  "make_lwi_cache_filename filename =
     (let filename' =
            (if len filename + len extension > max_len
             then slice_from filename (- (max_len + len extension))
             else filename)
      in map (\<lambda>c. if c \<in> {CHR ''/'', CHR 0x5C, CHR '':''} then CHR ''_'' else c) filename'
         @ extension)"

text \<open>
  \<^verbatim>\<open>
  def make_keyframes_filename(filename: str) -> str:
      extlen = filename[::-1].find(".") + 1
      return filename[:len(filename) - extlen] + " keyframes.txt"
  \<close>
\<close>

definition make_keyframes_filename :: "string \<Rightarrow> string" where
  "make_keyframes_filename filename =
     (let extlen = find_char (rev filename) (CHR ''.'') + 1
      in slice_to filename (len filename - extlen) @ '' keyframes.txt'')"

section \<open>The index file parser\<close>

subsection \<open>Regular expressions\<close>

text \<open>
  The three patterns are sequences of literal text and character-class runs \<open>[...]+\<close>,
  each run followed by a literal that starts with a character outside its class (or by the
  end of the pattern). Matching such a pattern from the start of a line, as
  \<^verbatim>\<open>re.match\<close> does, is deterministic: every run takes the longest stretch of
  characters of its class, and backtracking to a shorter stretch can never succeed. The
  optional sign \<open>-?\<close> is taken whenever the next character is a minus sign. Text after
  the end of the match is ignored.
\<close>

definition digit :: "char \<Rightarrow> bool" where
  "digit c = (c \<in> set ''0123456789'')"

definition digit_or_slash :: "char \<Rightarrow> bool" where
  "digit_or_slash c = (digit c \<or> c = CHR ''/'')"

definition alnum :: "char \<Rightarrow> bool" where
  "alnum c = (digit c \<or> c \<in> set ''abcdefghijklmnopqrstuvwxyz''
               \<or> c \<in> set ''ABCDEFGHIJKLMNOPQRSTUVWXYZ'')"

text \<open>A literal piece of a pattern: the rest of the line after it, if the line starts with it.\<close>

definition lit :: "string \<Rightarrow> string \<Rightarrow> string option" where
  "lit p s = (if take (length p) s = p then Some (drop (length p) s) else None)"

text \<open>A run \<open>[...]+\<close>: the matched group and the rest of the line.\<close>

definition many1 :: "(char \<Rightarrow> bool) \<Rightarrow> string \<Rightarrow> (string \<times> string) option" where
  "many1 P s = (if takeWhile P s = [] then None else Some (takeWhile P s, dropWhile P s))"

text \<open>The group \<open>-?[0-9]+\<close>.\<close>

definition signed_digits :: "string \<Rightarrow> (string \<times> string) option" where
  "signed_digits s =
     (if s \<noteq> [] \<and> hd s = CHR ''-''
      then map_option (\<lambda>(g, r). (CHR ''-'' # g, r)) (many1 digit (tl s))
      else many1 digit s)"

record lwindex_match1 =
  g_Index :: string
  g_POS :: string
  g_PTS :: string
  g_DTS :: string
  g_EDI :: string

record lwindex_match2 =
  g_Key :: string
  g_Pic :: string
  g_POC :: string
  g_Repeat :: string
  g_Field :: string

record streaminfo_match =
  g_Codec :: string
  g_TimeBase :: string
  g_Width :: string
  g_Height :: string
  g_Format :: string
  g_ColorSpace :: string

text \<open>
  \<^verbatim>\<open>Index=(-?[0-9]+),POS=(-?[0-9]+),PTS=(-?[0-9]+),DTS=(-?[0-9]+),EDI=(-?[0-9]+)\<close>
\<close>

definition lwindex_re1 :: "string \<Rightarrow> lwindex_match1 option" where
  "lwindex_re1 s =
     Option.bind (lit ''Index='' s) (\<lambda>r.
     Option.bind (signed_digits r) (\<lambda>(a, r).
     Option.bind (lit '',POS='' r) (\<lambda>r.
     Option.bind (signed_digits r) (\<lambda>(b, r).
     Option.bind (lit '',PTS='' r) (\<lambda>r.
     Option.bind (signed_digits r) (\<lambda>(c, r).
     Option.bind (lit '',DTS='' r) (\<lambda>r.
     Option.bind (signed_digits r) (\<lambda>(d, r).
     Option.bind (lit '',EDI='' r) (\<lambda>r.
     Option.bind (signed_digits r) (\<lambda>(e, r).
     Some \<lparr>g_Index = a, g_POS = b, g_PTS = c, g_DTS = d, g_EDI = e\<rparr>))))))))))"

text \<open>
  \<^verbatim>\<open>Key=(-?[0-9]+),Pic=(-?[0-9]+),POC=(-?[0-9]+),Repeat=(-?[0-9]+),Field=(-?[0-9]+)\<close>
\<close>

definition lwindex_re2 :: "string \<Rightarrow> lwindex_match2 option" where
  "lwindex_re2 s =
     Option.bind (lit ''Key='' s) (\<lambda>r.
     Option.bind (signed_digits r) (\<lambda>(a, r).
     Option.bind (lit '',Pic='' r) (\<lambda>r.
     Option.bind (signed_digits r) (\<lambda>(b, r).
     Option.bind (lit '',POC='' r) (\<lambda>r.
     Option.bind (signed_digits r) (\<lambda>(c, r).
     Option.bind (lit '',Repeat='' r) (\<lambda>r.
     Option.bind (signed_digits r) (\<lambda>(d, r).
     Option.bind (lit '',Field='' r) (\<lambda>r.
     Option.bind (signed_digits r) (\<lambda>(e, r).
     Some \<lparr>g_Key = a, g_Pic = b, g_POC = c, g_Repeat = d, g_Field = e\<rparr>))))))))))"

text \<open>
  \<^verbatim>\<open>Codec=([0-9]+),TimeBase=([0-9\/]+),Width=([0-9]+),Height=([0-9]+),Format=([0-9a-zA-Z]+),ColorSpace=([0-9]+)\<close>
\<close>

definition streaminfo_re :: "string \<Rightarrow> streaminfo_match option" where
  "streaminfo_re s =
     Option.bind (lit ''Codec='' s) (\<lambda>r.
     Option.bind (many1 digit r) (\<lambda>(a, r).
     Option.bind (lit '',TimeBase='' r) (\<lambda>r.
     Option.bind (many1 digit_or_slash r) (\<lambda>(b, r).
     Option.bind (lit '',Width='' r) (\<lambda>r.
     Option.bind (many1 digit r) (\<lambda>(c, r).
     Option.bind (lit '',Height='' r) (\<lambda>r.
     Option.bind (many1 digit r) (\<lambda>(d, r).
     Option.bind (lit '',Format='' r) (\<lambda>r.
     Option.bind (many1 alnum r) (\<lambda>(e, r).
     Option.bind (lit '',ColorSpace='' r) (\<lambda>r.
     Option.bind (many1 digit r) (\<lambda>(f, r).
     Some \<lparr>g_Codec = a, g_TimeBase = b, g_Width = c, g_Height = d, g_Format = e,
            g_ColorSpace = f\<rparr>))))))))))))"

subsection \<open>Conversions and list operations\<close>

text \<open>
  \<^verbatim>\<open>int(s)\<close>, for the strings the parser hands to it: these consist of digits, minus
  signs and nothing else. On such strings \<^verbatim>\<open>int\<close> accepts exactly an optional minus
  sign followed by at least one digit; \<open>int_literal\<close> is that conversion. CPython
  moreover refuses, with ValueError as well, a text of more than 4300 digits, leading
  zeros included: the default limit of \<^verbatim>\<open>sys.set_int_max_str_digits\<close>.
\<close>

definition digit_value :: "char \<Rightarrow> int" where
  "digit_value c = int (of_char c) - 48"

definition decimal :: "string \<Rightarrow> int" where
  "decimal ds = foldl (\<lambda>a c. 10 * a + digit_value c) 0 ds"

definition int_literal :: "string \<Rightarrow> error + int" where
  "int_literal s =
     (if s \<noteq> [] \<and> hd s = CHR ''-''
      then (if tl s \<noteq> [] \<and> list_all digit (tl s) then Inr (- decimal (tl s)) else Inl ValueError)
      else (if s \<noteq> [] \<and> list_all digit s then Inr (decimal s) else Inl ValueError))"

definition max_str_digits :: nat where
  "max_str_digits = 4300"

definition within_limit :: "string \<Rightarrow> bool" where
  "within_limit s = (length (filter digit s) \<le> max_str_digits)"

definition py_int :: "string \<Rightarrow> error + int" where
  "py_int s = (if within_limit s then int_literal s else Inl ValueError)"

text \<open>\<^verbatim>\<open>s.split(c)\<close> for a one-character separator.\<close>

fun split_on :: "char \<Rightarrow> string \<Rightarrow> string list" where
  "split_on c [] = [[]]"
| "split_on c (x # xs) =
     (if x = c then [] # split_on c xs
      else (case split_on c xs of [] \<Rightarrow> [[x]] | p # ps \<Rightarrow> (x # p) # ps))"

text \<open>\<^verbatim>\<open>xs.index(v)\<close>: the first position of \<open>v\<close>, or ValueError.\<close>

fun list_index :: "'a list \<Rightarrow> 'a \<Rightarrow> error + nat" where
  "list_index [] v = Inl ValueError"
| "list_index (x # xs) v =
     (if x = v then Inr 0
      else (case list_index xs v of Inl e \<Rightarrow> Inl e | Inr i \<Rightarrow> Inr (Suc i)))"

text \<open>\<^verbatim>\<open>xs[i]\<close>: a negative index counts from the end; out of range is IndexError.\<close>

definition subscript :: "'a list \<Rightarrow> int \<Rightarrow> error + 'a" where
  "subscript xs i =
     (let j = (if i < 0 then len xs + i else i)
      in if 0 \<le> j \<and> j < len xs then Inr (xs ! nat j) else Inl IndexError)"

text \<open>\<^verbatim>\<open>range(start, stop, 2)\<close>.\<close>

definition range2 :: "nat \<Rightarrow> nat \<Rightarrow> nat list" where
  "range2 start stop = filter (\<lambda>i. even (i - start)) [start..<stop]"

text \<open>
  A list comprehension \<^verbatim>\<open>[f(x) for x in xs]\<close> whose body may raise: the elements
  are computed from left to right and the first exception ends the comprehension.
\<close>

fun traverse :: "('a \<Rightarrow> error + 'b) \<Rightarrow> 'a list \<Rightarrow> error + 'b list" where
  "traverse f [] = Inr []"
| "traverse f (x # xs) =
     (case f x of
        Inl e \<Rightarrow> Inl e
      | Inr y \<Rightarrow> (case traverse f xs of Inl e \<Rightarrow> Inl e | Inr ys \<Rightarrow> Inr (y # ys)))"

subsection \<open>Frame records\<close>

text \<open>
  \<^verbatim>\<open>
  class LWIndexFrame:
      def __init__(self, raw: list[str]):
          match1 = lwindex_re1.match(raw[0])
          match2 = lwindex_re2.match(raw[1])
          if not match1 or not match2:
              raise ValueError("Invalid lwindex format")
          self.pts = int(match1.group("PTS"))
          self.key = int(match2.group("Key"))
      def __int__(self) -> int:
          return self.pts
  \<close>
\<close>

record LWIndexFrame =
  pts :: int
  key :: int

definition LWIndexFrame_init :: "string list \<Rightarrow> error + LWIndexFrame" where
  "LWIndexFrame_init raw =
     (case subscript raw 0 of Inl e \<Rightarrow> Inl e | Inr line0 \<Rightarrow>
     (case subscript raw 1 of Inl e \<Rightarrow> Inl e | Inr line1 \<Rightarrow>
     (case lwindex_re1 line0 of None \<Rightarrow> Inl ValueError | Some match1 \<Rightarrow>
     (case lwindex_re2 line1 of None \<Rightarrow> Inl ValueError | Some match2 \<Rightarrow>
     (case py_int (g_PTS match1) of Inl e \<Rightarrow> Inl e | Inr p \<Rightarrow>
     (case py_int (g_Key match2) of Inl e \<Rightarrow> Inl e | Inr k \<Rightarrow>
      Inr \<lparr>pts = p, key = k\<rparr>))))))"

subsection \<open>info_from_lwindex\<close>

text \<open>
  \<^verbatim>\<open>
  def info_from_lwindex(indexfile: str) -> Dict[str, List[int]]:
      with open(indexfile, encoding="latin1") as f:
          index = f.read().splitlines()
      indexstart, indexend = index.index("</StreamInfo>") + 1, index.index("</LibavReaderIndex>")
      frames = [LWIndexFrame(index[i:i+2]) for i in range(indexstart, indexend, 2)]
      frames.sort(key=int)
      streaminfo = streaminfo_re.match(index[indexstart - 2])
      if not streaminfo:
          raise ValueError("Invalid lwindex format")
      timebase_num, timebase_den = [int(i) for i in streaminfo.group("TimeBase").split("/")]
      return {
          "timecodes": [(f.pts * 1000 * timebase_num) // timebase_den for f in frames],
          "keyframes": [i for i, f in enumerate(frames) if f.key],
      }
  \<close>
  The model starts from \<open>index\<close>, the lines of the file. The steps of the function are
  named so that the theorems can speak about the frames in document order and about the
  time base: \<open>markers\<close> is the first assignment, \<open>read_frames\<close> the comprehension over
  the two-line blocks, \<open>read_timebase\<close> the StreamInfo match and the unpacking of the
  time base. \<^verbatim>\<open>list.sort\<close> is stable, as \<^const>\<open>sort_key\<close> is. The returned
  dictionary has the two fixed keys and is a record.
\<close>

definition markers :: "string list \<Rightarrow> error + nat \<times> nat" where
  "markers index =
     (case list_index index ''</StreamInfo>'' of Inl e \<Rightarrow> Inl e | Inr s \<Rightarrow>
     (case list_index index ''</LibavReaderIndex>'' of Inl e \<Rightarrow> Inl e | Inr indexend \<Rightarrow>
      Inr (s + 1, indexend)))"

definition read_frames :: "string list \<Rightarrow> nat \<Rightarrow> nat \<Rightarrow> error + LWIndexFrame list" where
  "read_frames index indexstart indexend =
     traverse (\<lambda>i. LWIndexFrame_init (take 2 (drop i index))) (range2 indexstart indexend)"

definition unpack_timebase :: "string \<Rightarrow> error + int \<times> int" where
  "unpack_timebase tb =
     (case traverse py_int (split_on (CHR ''/'') tb) of
        Inl e \<Rightarrow> Inl e
      | Inr vs \<Rightarrow> (case vs of [timebase_num, timebase_den] \<Rightarrow> Inr (timebase_num, timebase_den)
                  | _ \<Rightarrow> Inl ValueError))"

definition read_timebase :: "string list \<Rightarrow> nat \<Rightarrow> error + int \<times> int" where
  "read_timebase index indexstart =
     (case subscript index (int indexstart - 2) of Inl e \<Rightarrow> Inl e | Inr line \<Rightarrow>
     (case streaminfo_re line of None \<Rightarrow> Inl ValueError | Some streaminfo \<Rightarrow>
      unpack_timebase (g_TimeBase streaminfo)))"

record info =
  timecodes :: "int list"
  keyframes :: "nat list"

definition info_from_lwindex :: "string list \<Rightarrow> error + info" where
  "info_from_lwindex index =
     (case markers index of Inl e \<Rightarrow> Inl e | Inr (indexstart, indexend) \<Rightarrow>
     (case read_frames index indexstart indexend of Inl e \<Rightarrow> Inl e | Inr document_frames \<Rightarrow>
     (let frames = sort_key pts document_frames in
     (case read_timebase index indexstart of Inl e \<Rightarrow> Inl e | Inr (timebase_num, timebase_den) \<Rightarrow>
      if timebase_den = 0 \<and> frames \<noteq> [] then Inl ZeroDivisionError
      else Inr \<lparr>timecodes = map (\<lambda>f. (pts f * 1000 * timebase_num) div timebase_den) frames,
                keyframes = map fst (filter (\<lambda>(i, f). key f \<noteq> 0) (enumerate 0 frames))\<rparr>))))"

section \<open>Keyframe generation\<close>

text \<open>
  The VapourSynth core is the environment of the module. A clip carries its dimensions,
  its format and, for every frame, the frame properties; \<^verbatim>\<open>clip.num_frames\<close> is the
  number of frames. A plugin namespace such as \<^verbatim>\<open>core.wwxd\<close> is an optional function:
  \<open>None\<close> when the plugin is not installed, in which case the attribute lookup raises
  AttributeError. The resizer is built into VapourSynth and always present. Keyword
  arguments are passed through to the plugins unchanged and have an arbitrary type.
\<close>

record VideoNode =
  width :: int
  height :: int
  format :: int
  frame_props :: "(string \<rightharpoonup> int) list"

definition num_frames :: "VideoNode \<Rightarrow> nat" where
  "num_frames clip = length (frame_props clip)"

record 'kw core =
  resize_Bilinear :: "VideoNode \<Rightarrow> int \<Rightarrow> int \<Rightarrow> int \<Rightarrow> error + VideoNode"
  scxvid :: "(VideoNode \<Rightarrow> 'kw \<Rightarrow> error + VideoNode) option"
  wwxd :: "(VideoNode \<Rightarrow> 'kw \<Rightarrow> error + VideoNode) option"
  bas :: "(string \<Rightarrow> 'kw \<Rightarrow> error + unit) option"

text \<open>Calling a function of a plugin namespace that may be absent.\<close>

definition call_plugin :: "('a \<Rightarrow> 'kw \<Rightarrow> error + 'b) option \<Rightarrow> 'a \<Rightarrow> 'kw \<Rightarrow> error + 'b" where
  "call_plugin plugin x kwargs =
     (case plugin of None \<Rightarrow> Inl AttributeError | Some f \<Rightarrow> f x kwargs)"

text \<open>
  \<^verbatim>\<open>
  def make_keyframes(clip, use_scxvid=False, resize_h=360, resize_format=vs.YUV420P8, **kwargs):
      clip = core.resize.Bilinear(clip, width=resize_h * clip.width // clip.height,
                                  height=resize_h, format=resize_format);
      try:
          clip = core.scxvid.Scxvid(clip, **kwargs) if use_scxvid else core.wwxd.WWXD(clip, **kwargs)
      except AttributeError:
          raise vs.Error("To use the keyframe generation, the `{}` plugin for VapourSynth must be installed"
                         .format("scxvid" if use_scxvid else "wwxd"))
      keyframes = {}
      def _cb(n, f):
          keyframes[n] = f.props._SceneChangePrev if use_scxvid else f.props.Scenechange
          return f
      deque(clip.std.ModifyFrame(clip, _cb).frames(close=True), 0)
      return [n for n in range(clip.num_frames) if keyframes[n]]
  \<close>
  A frame without the property read by the callback fails the rendering of the clip
  (\<open>FrameError\<close>). The dictionary \<^verbatim>\<open>keyframes\<close> filled by the callback is the list
  \<open>flags\<close>, indexed by the frame number.
\<close>

definition missing_plugin_message :: "string \<Rightarrow> string" where
  "missing_plugin_message name =
     ''To use the keyframe generation, the `'' @ name
       @ ''` plugin for VapourSynth must be installed''"

definition make_keyframes ::
  "'kw core \<Rightarrow> VideoNode \<Rightarrow> bool \<Rightarrow> int \<Rightarrow> int \<Rightarrow> 'kw \<Rightarrow> error + nat list" where
  "make_keyframes core clip use_scxvid resize_h resize_format kwargs =
     (if height clip = 0 then Inl ZeroDivisionError
      else
     (case resize_Bilinear core clip (resize_h * width clip div height clip) resize_h resize_format
      of Inl e \<Rightarrow> Inl e | Inr resized \<Rightarrow>
     (case (if use_scxvid then call_plugin (scxvid core) resized kwargs
            else call_plugin (wwxd core) resized kwargs)
      of Inl AttributeError \<Rightarrow>
           Inl (VsError (missing_plugin_message (if use_scxvid then ''scxvid'' else ''wwxd'')))
       | Inl e \<Rightarrow> Inl e
       | Inr detected \<Rightarrow>
     (case traverse
             (\<lambda>props. case props (if use_scxvid then ''_SceneChangePrev'' else ''Scenechange'')
                       of None \<Rightarrow> Inl FrameError | Some v \<Rightarrow> Inr v)
             (frame_props detected)
      of Inl e \<Rightarrow> Inl e
       | Inr flags \<Rightarrow>
           Inr (filter (\<lambda>n. flags ! n \<noteq> 0) [0..<num_frames detected])))))"

text \<open>
  \<^verbatim>\<open>
  def save_keyframes(filename: str, keyframes: List[int]):
      with open(filename, "w") as f:
          f.write("# keyframe format v1\n")
          f.write("fps 0\n")
          f.write("".join(f"{n}\n" for n in keyframes))
  \<close>
  The file system maps a path to the text of the file. Opening for writing starts from
  the empty text and every \<^verbatim>\<open>write\<close> appends to it. \<open>py_str\<close> is the decimal text
  of an integer, as the f-string renders it; \<open>kfs\<close> is the argument
  \<^verbatim>\<open>keyframes\<close>.
\<close>

definition newline :: char where
  "newline = CHR 0x0A"

definition digit_char :: "nat \<Rightarrow> char" where
  "digit_char d = ''0123456789'' ! d"

fun digits_of :: "nat \<Rightarrow> string" where
  "digits_of n = (if n < 10 then [digit_char n] else digits_of (n div 10) @ [digit_char (n mod 10)])"

definition py_str :: "int \<Rightarrow> string" where
  "py_str n = (if n < 0 then CHR ''-'' # digits_of (nat (- n)) else digits_of (nat n))"

definition file_write :: "string \<Rightarrow> string \<Rightarrow> string" where
  "file_write content s = content @ s"

definition save_keyframes ::
  "(string \<rightharpoonup> string) \<Rightarrow> string \<Rightarrow> int list \<Rightarrow> (string \<rightharpoonup> string)" where
  "save_keyframes fs filename kfs =
     (let f = [];
          f = file_write f (''# keyframe format v1'' @ [newline]);
          f = file_write f (''fps 0'' @ [newline]);
          f = file_write f (concat (map (\<lambda>n. py_str n @ [newline]) kfs))
      in fs(filename \<mapsto> f))"

text \<open>
  \<^verbatim>\<open>
  def check_audio(filename: str, **kwargs: Any) -> bool:
      try:
          vs.core.bas.Source(source=filename, **kwargs)
          return True
      except AttributeError:
          pass
      except vs.Error:
          pass
      return False
  \<close>
\<close>

definition check_audio :: "'kw core \<Rightarrow> string \<Rightarrow> 'kw \<Rightarrow> error + bool" where
  "check_audio core filename kwargs =
     (case call_plugin (bas core) filename kwargs of
        Inr _ \<Rightarrow> Inr True
      | Inl AttributeError \<Rightarrow> Inr False
      | Inl (VsError _) \<Rightarrow> Inr False
      | Inl e \<Rightarrow> Inl e)"

section \<open>The format of an index file\<close>

text \<open>
  The lines the parser reads, described on their text. A number is an optional minus sign
  followed by at least one digit, and its value is read in base ten. A frame block is a
  line of the five fields Index, POS, PTS, DTS, EDI followed by a line of the five fields
  Key, Pic, POC, Repeat, Field, each field a number; the block carries the frame whose
  timestamp is the PTS field and whose key flag is the Key field. A StreamInfo line gives
  the time base as two runs of digits around a slash. Text after the last field of a line
  is not constrained. A marker is found at the first line equal to it.
\<close>

definition digits :: "string \<Rightarrow> bool" where
  "digits s = (s \<noteq> [] \<and> list_all digit s)"

definition is_number :: "string \<Rightarrow> bool" where
  "is_number s = (if s \<noteq> [] \<and> hd s = CHR ''-'' then digits (tl s) else digits s)"

definition number_value :: "string \<Rightarrow> int" where
  "number_value s = (if s \<noteq> [] \<and> hd s = CHR ''-'' then - decimal (tl s) else decimal s)"

definition first_index :: "'a list \<Rightarrow> 'a \<Rightarrow> nat \<Rightarrow> bool" where
  "first_index xs v i = (i < length xs \<and> xs ! i = v \<and> v \<notin> set (take i xs))"

definition frame_fields :: "string \<Rightarrow> string \<Rightarrow> string \<Rightarrow> string \<Rightarrow> bool" where
  "frame_fields line0 line1 p k =
     (\<exists>idx pos dts edi rest0 pic poc rep fld rest1.
        line0 = ''Index='' @ idx @ '',POS='' @ pos @ '',PTS='' @ p @ '',DTS='' @ dts
                  @ '',EDI='' @ edi @ rest0
      \<and> is_number idx \<and> is_number pos \<and> is_number p \<and> is_number dts \<and> is_number edi
      \<and> line1 = ''Key='' @ k @ '',Pic='' @ pic @ '',POC='' @ poc @ '',Repeat='' @ rep
                  @ '',Field='' @ fld @ rest1
      \<and> is_number k \<and> is_number pic \<and> is_number poc \<and> is_number rep \<and> is_number fld)"

definition frame_block :: "string \<Rightarrow> string \<Rightarrow> LWIndexFrame \<Rightarrow> bool" where
  "frame_block line0 line1 f =
     (\<exists>p k. frame_fields line0 line1 p k \<and> pts f = number_value p \<and> key f = number_value k)"

definition streaminfo_fields :: "string \<Rightarrow> string \<Rightarrow> string \<Rightarrow> bool" where
  "streaminfo_fields line a b =
     (\<exists>codec w h fmt cs rest.
        line = ''Codec='' @ codec @ '',TimeBase='' @ a @ ''/'' @ b @ '',Width='' @ w
                 @ '',Height='' @ h @ '',Format='' @ fmt @ '',ColorSpace='' @ cs @ rest
      \<and> digits codec \<and> digits a \<and> digits b \<and> digits w \<and> digits h
      \<and> fmt \<noteq> [] \<and> list_all alnum fmt \<and> digits cs)"

definition streaminfo_timebase :: "string \<Rightarrow> int \<Rightarrow> int \<Rightarrow> bool" where
  "streaminfo_timebase line num den =
     (\<exists>a b. streaminfo_fields line a b \<and> num = decimal a \<and> den = decimal b)"

text \<open>
  A frame block or a StreamInfo line is valid when it has the format and the fields the
  parser converts to integers, PTS and Key or the two parts of the time base, have no more
  digits than the integer conversion accepts.
\<close>

definition valid_block :: "string \<Rightarrow> string \<Rightarrow> bool" where
  "valid_block line0 line1 =
     (\<exists>p k. frame_fields line0 line1 p k \<and> within_limit p \<and> within_limit k)"

definition valid_streaminfo :: "string \<Rightarrow> bool" where
  "valid_streaminfo line =
     (\<exists>a b. streaminfo_fields line a b \<and> within_limit a \<and> within_limit b)"

section \<open>Conditions on an index file\<close>

text \<open>
  The same conditions on the side of the parser, computed with its patterns. A two-line
  block starting at line \<open>i\<close> matches when the first line matches \<open>lwindex_re1\<close> and
  the second \<open>lwindex_re2\<close>; it converts when its PTS and Key groups are within the
  limit of the integer conversion. A TimeBase group is well formed when it is two
  non-empty runs of digits, each within that limit, separated by a single slash.
\<close>

definition block_matches :: "string list \<Rightarrow> nat \<Rightarrow> bool" where
  "block_matches index i = (lwindex_re1 (index ! i) \<noteq> None \<and> lwindex_re2 (index ! Suc i) \<noteq> None)"

definition block_converts :: "string list \<Rightarrow> nat \<Rightarrow> bool" where
  "block_converts index i =
     (case lwindex_re1 (index ! i) of
        None \<Rightarrow> True
      | Some match1 \<Rightarrow>
          (case lwindex_re2 (index ! Suc i) of
             None \<Rightarrow> True
           | Some match2 \<Rightarrow> within_limit (g_PTS match1) \<and> within_limit (g_Key match2)))"

definition timebase_wellformed :: "string \<Rightarrow> bool" where
  "timebase_wellformed tb =
     (case split_on (CHR ''/'') tb of
        [a, b] \<Rightarrow> a \<noteq> [] \<and> list_all digit a \<and> within_limit a
                 \<and> b \<noteq> [] \<and> list_all digit b \<and> within_limit b
      | _ \<Rightarrow> False)"

section \<open>Sample inputs\<close>

text \<open>
  A synthetic index file: time base 1/1000, three frames with PTS 0, 40, 20 in document
  order and keyframe flags 1, 0, 0.
\<close>

definition example_index :: "string list" where
  "example_index =
     [''<StreamInfo=0,0,0,0>'',
      ''Codec=27,TimeBase=1/1000,Width=1920,Height=1080,Format=yuv420p,ColorSpace=1'',
      ''</StreamInfo>'',
      ''Index=0,POS=100,PTS=0,DTS=-40,EDI=0'',
      ''Key=1,Pic=1,POC=0,Repeat=1,Field=0'',
      ''Index=0,POS=200,PTS=40,DTS=0,EDI=0'',
      ''Key=0,Pic=2,POC=2,Repeat=1,Field=0'',
      ''Index=0,POS=300,PTS=20,DTS=40,EDI=0'',
      ''Key=0,Pic=3,POC=1,Repeat=1,Field=0'',
      ''</LibavReaderIndex>'']"

text \<open>
  An index file whose frames share timestamps: PTS 40, 0, 0, 40 in document order, with
  keyframe flags 0, 0, 1, 1.
\<close>

definition tie_index :: "string list" where
  "tie_index =
     [''Codec=27,TimeBase=1/1000,Width=1920,Height=1080,Format=yuv420p,ColorSpace=1'',
      ''</StreamInfo>'',
      ''Index=0,POS=100,PTS=40,DTS=0,EDI=0'',
      ''Key=0,Pic=1,POC=0,Repeat=1,Field=0'',
      ''Index=0,POS=200,PTS=0,DTS=0,EDI=0'',
      ''Key=0,Pic=2,POC=2,Repeat=1,Field=0'',
      ''Index=0,POS=300,PTS=0,DTS=40,EDI=0'',
      ''Key=1,Pic=3,POC=1,Repeat=1,Field=0'',
      ''Index=0,POS=400,PTS=40,DTS=40,EDI=0'',
      ''Key=1,Pic=3,POC=1,Repeat=1,Field=0'',
      ''</LibavReaderIndex>'']"

text \<open>
  An index file whose only frame block lacks its second line, and one whose StreamInfo
  line has a malformed codec field next to a well-formed time base.
\<close>

definition truncated_index :: "string list" where
  "truncated_index =
     [''Codec=27,TimeBase=1/1000,Width=1920,Height=1080,Format=yuv420p,ColorSpace=1'',
      ''</StreamInfo>'',
      ''Index=0,POS=100,PTS=0,DTS=0,EDI=0'',
      ''</LibavReaderIndex>'']"

definition bad_codec_index :: "string list" where
  "bad_codec_index =
     [''Codec=h264,TimeBase=1/1000,Width=1920,Height=1080,Format=yuv420p,ColorSpace=1'',
      ''</StreamInfo>'',
      ''Index=0,POS=100,PTS=0,DTS=0,EDI=0'',
      ''Key=1,Pic=1,POC=0,Repeat=1,Field=0'',
      ''</LibavReaderIndex>'']"

text \<open>
  An index file with time base 1001/30000, four frames with PTS 0, 3, 1, 2 in document
  order and keyframe flags 1, -1, 0, 2.
\<close>

definition ntsc_index :: "string list" where
  "ntsc_index =
     [''<StreamInfo=0,0,0,0>'',
      ''Codec=27,TimeBase=1001/30000,Width=1920,Height=1080,Format=yuv420p,ColorSpace=1'',
      ''</StreamInfo>'',
      ''Index=0,POS=100,PTS=0,DTS=-1,EDI=0'',
      ''Key=1,Pic=1,POC=0,Repeat=1,Field=0'',
      ''Index=0,POS=200,PTS=3,DTS=0,EDI=0'',
      ''Key=-1,Pic=2,POC=6,Repeat=1,Field=0'',
      ''Index=0,POS=300,PTS=1,DTS=1,EDI=0'',
      ''Key=0,Pic=3,POC=2,Repeat=1,Field=0'',
      ''Index=0,POS=400,PTS=2,DTS=2,EDI=0'',
      ''Key=2,Pic=3,POC=4,Repeat=1,Field=0'',
      ''</LibavReaderIndex>'']"

text \<open>
  Two index files with a zero denominator in the time base: one with a frame, one
  without.
\<close>

definition zero_den_index :: "string list" where
  "zero_den_index =
     [''Codec=27,TimeBase=1/0,Width=1920,Height=1080,Format=yuv420p,ColorSpace=1'',
      ''</StreamInfo>'',
      ''Index=0,POS=100,PTS=0,DTS=0,EDI=0'',
      ''Key=1,Pic=1,POC=0,Repeat=1,Field=0'',
      ''</LibavReaderIndex>'']"

definition zero_den_empty_index :: "string list" where
  "zero_den_empty_index =
     [''Codec=27,TimeBase=1/0,Width=1920,Height=1080,Format=yuv420p,ColorSpace=1'',
      ''</StreamInfo>'',
      ''</LibavReaderIndex>'']"

text \<open>
  A VapourSynth core with the Scxvid plugin and without WWXD and BestAudioSource, a core
  with no plugin at all, and a clip of two frames. The resizer returns the clip with the
  requested geometry, the detector marks no frame as a scene change.
\<close>

definition sample_resize :: "VideoNode \<Rightarrow> int \<Rightarrow> int \<Rightarrow> int \<Rightarrow> error + VideoNode" where
  "sample_resize clip w h f = Inr (clip\<lparr>width := w, height := h, format := f\<rparr>)"

definition sample_detector :: "VideoNode \<Rightarrow> unit \<Rightarrow> error + VideoNode" where
  "sample_detector clip kwargs =
     Inr (clip\<lparr>frame_props := map (\<lambda>props. props(''_SceneChangePrev'' \<mapsto> 0)) (frame_props clip)\<rparr>)"

definition scxvid_only_core :: "unit core" where
  "scxvid_only_core =
     \<lparr>resize_Bilinear = sample_resize, scxvid = Some sample_detector, wwxd = None, bas = None\<rparr>"

definition bare_core :: "unit core" where
  "bare_core = \<lparr>resize_Bilinear = sample_resize, scxvid = None, wwxd = None, bas = None\<rparr>"

definition sample_clip :: VideoNode where
  "sample_clip = \<lparr>width = 1920, height = 1080, format = 0, frame_props = [Map.empty, Map.empty]\<rparr>"

section \<open>Properties of the file names\<close>

lemma find_char_ge: "- 1 \<le> find_char s c"
  by (induction s) (auto simp: Let_def)

lemma find_char_absent: "c \<notin> set s \<Longrightarrow> find_char s c = - 1"
  by (induction s) (auto simp: Let_def)

lemma find_char_present:
  "c \<in> set s \<Longrightarrow> find_char s c = int (length (takeWhile (\<lambda>x. x \<noteq> c) s))"
  by (induction s) (auto simp: Let_def find_char_absent)

text \<open>
  C1. The result of \<open>make_lwi_cache_filename\<close> is claimed to be at most 254 characters
  long. The guard compares against 254, but the slice keeps the last 254 + 4 characters
  instead of the last 254 - 4: a name of 251 characters is not shortened at all and the
  result has 255 characters.
\<close>

theorem make_lwi_cache_filename_too_long:
  "make_lwi_cache_filename (replicate 251 (CHR ''a'')) = replicate 251 (CHR ''a'') @ ''.lwi''
   \<and> length (make_lwi_cache_filename (replicate 251 (CHR ''a''))) = 255"
  by (simp add: make_lwi_cache_filename_def len_def extension_def max_len_def slice_from_def)

text \<open>
  C10. A file name without a dot is kept whole and \<open>'' keyframes.txt''\<close> is appended;
  otherwise the name is cut just before its last dot: writing the name as \<open>stem @ ''.'' @ ext\<close>
  with no dot in \<open>ext\<close>, the result is \<open>stem @ '' keyframes.txt''\<close>.
\<close>

theorem make_keyframes_filename_spec:
  "(CHR ''.'' \<notin> set filename \<longrightarrow>
      make_keyframes_filename filename = filename @ '' keyframes.txt'')
   \<and> (\<forall>stem ext. filename = stem @ CHR ''.'' # ext \<and> CHR ''.'' \<notin> set ext \<longrightarrow>
      make_keyframes_filename filename = stem @ '' keyframes.txt'')"
proof (intro conjI allI impI)
  assume "CHR ''.'' \<notin> set filename"
  then have "find_char (rev filename) (CHR ''.'') = - 1"
    by (simp add: find_char_absent)
  then show "make_keyframes_filename filename = filename @ '' keyframes.txt''"
    by (simp add: make_keyframes_filename_def slice_to_def len_def)
next
  fix stem ext
  assume h: "filename = stem @ CHR ''.'' # ext \<and> CHR ''.'' \<notin> set ext"
  then have r: "rev filename = rev ext @ CHR ''.'' # rev stem"
    by simp
  have "takeWhile (\<lambda>x. x \<noteq> CHR ''.'') (rev filename) = rev ext"
    unfolding r using h by (subst takeWhile_append2) auto
  moreover have "CHR ''.'' \<in> set (rev filename)"
    using h by simp
  ultimately have "find_char (rev filename) (CHR ''.'') = int (length ext)"
    by (simp add: find_char_present)
  then show "make_keyframes_filename filename = stem @ '' keyframes.txt''"
    using h by (simp add: make_keyframes_filename_def slice_to_def len_def)
qed

theorem make_keyframes_filename_spec_witness:
  "make_keyframes_filename ''file'' = ''file keyframes.txt''
   \<and> make_keyframes_filename ''path/to/file.mkv'' = ''path/to/file keyframes.txt''"
proof -
  have a: "CHR ''.'' \<notin> set ''file''" by simp
  have b: "''path/to/file.mkv'' = ''path/to/file'' @ CHR ''.'' # ''mkv'' \<and> CHR ''.'' \<notin> set ''mkv''"
    by simp
  from make_keyframes_filename_spec [of "''file''"] a
  have 1: "make_keyframes_filename ''file'' = ''file'' @ '' keyframes.txt''" by blast
  from make_keyframes_filename_spec [of "''path/to/file.mkv''"] b
  have 2: "make_keyframes_filename ''path/to/file.mkv'' = ''path/to/file'' @ '' keyframes.txt''"
    by blast
  from 1 2 show ?thesis by simp
qed

section \<open>Properties of the index file parser\<close>

subsection \<open>Lists and comprehensions\<close>

lemma list_index_Inl: "list_index xs v = Inl e \<longleftrightarrow> v \<notin> set xs \<and> e = ValueError"
  by (induction xs) (auto split: sum.splits)

lemma list_index_Inr: "list_index xs v = Inr i \<Longrightarrow> i < length xs \<and> xs ! i = v"
  by (induction xs arbitrary: i) (auto split: sum.splits if_splits)

lemma list_index_Inr_mem: "list_index xs v = Inr i \<Longrightarrow> v \<in> set xs"
  using list_index_Inl [of xs v ValueError] by auto

lemma list_index_mem: "v \<in> set xs \<Longrightarrow> \<exists>i. list_index xs v = Inr i"
  by (cases "list_index xs v") (auto simp: list_index_Inl)

lemma list_index_before: "list_index xs v = Inr i \<Longrightarrow> v \<notin> set (take i xs)"
  by (induction xs arbitrary: i) (auto split: sum.splits if_splits)

lemma list_index_first: "list_index xs v = Inr i \<Longrightarrow> first_index xs v i"
  by (simp add: first_index_def list_index_Inr list_index_before)

lemma traverse_Inr:
  "traverse f xs = Inr ys \<Longrightarrow> list_all2 (\<lambda>x y. f x = Inr y) xs ys"
  by (induction xs arbitrary: ys) (auto split: sum.splits)

lemma traverse_total:
  "\<forall>x \<in> set xs. \<exists>y. f x = Inr y \<Longrightarrow> \<exists>ys. traverse f xs = Inr ys"
  by (induction xs) (auto split: sum.splits)

lemma traverse_Inl:
  "traverse f xs = Inl e \<Longrightarrow> \<exists>x \<in> set xs. f x = Inl e"
  by (induction xs) (auto split: sum.splits)

lemma traverse_length: "traverse f xs = Inr ys \<Longrightarrow> length ys = length xs"
  using traverse_Inr [of f xs ys] by (auto dest: list_all2_lengthD)

lemma range2_bounds: "i \<in> set (range2 s e) \<Longrightarrow> s \<le> i \<and> i < e"
  by (auto simp: range2_def)

lemma range2_Suc:
  "range2 a (Suc b) = (if a \<le> b \<and> even (b - a) then range2 a b @ [b] else range2 a b)"
  by (auto simp: range2_def)

lemma range2_steps: "range2 a b = map (\<lambda>j. a + 2 * j) [0..<(b + 1 - a) div 2]"
proof (induction b)
  case 0
  show ?case by (simp add: range2_def)
next
  case (Suc b)
  show ?case
  proof (cases "a \<le> b")
    case False
    then have "range2 a (Suc b) = []" by (auto simp: range2_def)
    moreover from False have "(Suc b + 1 - a) div 2 = 0" by simp
    ultimately show ?thesis by simp
  next
    case True
    show ?thesis
    proof (cases "even (b - a)")
      case e: True
      define k where "k = (b - a) div 2"
      from e have k: "b - a = 2 * k" unfolding k_def by presburger
      with True have b: "b = a + 2 * k" by simp
      have "(b + 1 - a) div 2 = k" "(Suc b + 1 - a) div 2 = Suc k"
        unfolding b by simp_all
      with Suc True e b show ?thesis by (simp add: range2_Suc)
    next
      case o: False
      define k where "k = (b - a) div 2"
      from o have k: "b - a = 2 * k + 1" unfolding k_def by presburger
      with True have b: "b = a + 2 * k + 1" by simp
      have "(b + 1 - a) div 2 = Suc k" "(Suc b + 1 - a) div 2 = Suc k"
        unfolding b by simp_all
      with Suc True o show ?thesis by (simp add: range2_Suc)
    qed
  qed
qed

subsection \<open>Groups and conversions\<close>

lemma lit_Some: "lit p s = Some r \<Longrightarrow> s = p @ r"
  by (auto simp: lit_def split: if_splits) (metis append_take_drop_id)

lemma many1_Some: "many1 P s = Some (g, r) \<Longrightarrow> g \<noteq> [] \<and> list_all P g \<and> s = g @ r"
  by (auto simp: many1_def list_all_iff split: if_splits dest: set_takeWhileD)

lemma many1_all: "many1 P s = Some (g, r) \<Longrightarrow> list_all P g"
  by (simp add: many1_Some)

lemma many1_digits: "many1 digit s = Some (g, r) \<Longrightarrow> digits g \<and> s = g @ r"
  by (simp add: digits_def many1_Some)

lemma digit_not_minus: "digit c \<Longrightarrow> c \<noteq> CHR ''-''"
  by (auto simp: digit_def)

lemma digits_hd: "digits g \<Longrightarrow> \<not> (g \<noteq> [] \<and> hd g = CHR ''-'')"
  by (cases g) (auto simp: digits_def digit_not_minus)

lemma digits_number: "digits g \<Longrightarrow> is_number g \<and> number_value g = decimal g"
  using digits_hd [of g] by (auto simp: is_number_def number_value_def)

lemma signed_digits_Some:
  assumes "signed_digits s = Some (g, r)"
  shows "is_number g \<and> s = g @ r"
proof (cases "s \<noteq> [] \<and> hd s = CHR ''-''")
  case True
  with assms obtain g' where g': "many1 digit (tl s) = Some (g', r)" "g = CHR ''-'' # g'"
    by (auto simp: signed_digits_def)
  from many1_digits [OF g'(1)] have "digits g'" "tl s = g' @ r" by simp_all
  with True g'(2) show ?thesis
    by (cases s) (auto simp: is_number_def)
next
  case False
  with assms have "many1 digit s = Some (g, r)"
    by (auto simp: signed_digits_def)
  from many1_digits [OF this] show ?thesis
    by (simp add: digits_number)
qed

lemma int_literal_iff: "int_literal s = Inr n \<longleftrightarrow> is_number s \<and> n = number_value s"
  by (auto simp: int_literal_def is_number_def number_value_def digits_def)

lemma int_literal_Inl: "int_literal s = Inl e \<Longrightarrow> e = ValueError"
  by (auto simp: int_literal_def split: if_splits)

lemma py_int_Inr:
  "py_int s = Inr n \<longleftrightarrow> is_number s \<and> within_limit s \<and> n = number_value s"
  by (auto simp: py_int_def int_literal_iff)

lemma py_int_Inl: "py_int s = Inl e \<Longrightarrow> e = ValueError"
  by (auto simp: py_int_def split: if_splits dest: int_literal_Inl)

lemma py_int_number:
  "is_number s \<Longrightarrow> py_int s = (if within_limit s then Inr (number_value s) else Inl ValueError)"
  using int_literal_iff [of s "number_value s"] by (simp add: py_int_def)

lemma py_int_empty: "py_int [] = Inl ValueError"
  by (simp add: py_int_def int_literal_def)

lemma digit_value_nonneg: "digit c \<Longrightarrow> 0 \<le> digit_value c"
  by (auto simp: digit_def digit_value_def)

lemma foldl_decimal_nonneg:
  "list_all digit ds \<Longrightarrow> 0 \<le> a \<Longrightarrow> 0 \<le> foldl (\<lambda>a c. 10 * a + digit_value c) a ds"
  by (induction ds arbitrary: a) (auto simp: digit_value_nonneg)

lemma decimal_nonneg: "list_all digit ds \<Longrightarrow> 0 \<le> decimal ds"
  by (simp add: decimal_def foldl_decimal_nonneg)

subsection \<open>The patterns\<close>

lemma lwindex_re1_format:
  assumes "lwindex_re1 s = Some m"
  shows "\<exists>rest. s = ''Index='' @ g_Index m @ '',POS='' @ g_POS m @ '',PTS='' @ g_PTS m
                    @ '',DTS='' @ g_DTS m @ '',EDI='' @ g_EDI m @ rest
          \<and> is_number (g_Index m) \<and> is_number (g_POS m) \<and> is_number (g_PTS m)
          \<and> is_number (g_DTS m) \<and> is_number (g_EDI m)"
proof -
  from assms obtain r1 a r2 r3 b r4 r5 c r6 r7 d r8 r9 e r10 where
    h: "lit ''Index='' s = Some r1" "signed_digits r1 = Some (a, r2)"
       "lit '',POS='' r2 = Some r3" "signed_digits r3 = Some (b, r4)"
       "lit '',PTS='' r4 = Some r5" "signed_digits r5 = Some (c, r6)"
       "lit '',DTS='' r6 = Some r7" "signed_digits r7 = Some (d, r8)"
       "lit '',EDI='' r8 = Some r9" "signed_digits r9 = Some (e, r10)"
       "m = \<lparr>g_Index = a, g_POS = b, g_PTS = c, g_DTS = d, g_EDI = e\<rparr>"
    by (auto simp: lwindex_re1_def split: Option.bind_splits)
  have "s = ''Index='' @ a @ '',POS='' @ b @ '',PTS='' @ c @ '',DTS='' @ d @ '',EDI='' @ e @ r10"
    using lit_Some [OF h(1)] lit_Some [OF h(3)] lit_Some [OF h(5)] lit_Some [OF h(7)]
      lit_Some [OF h(9)] signed_digits_Some [OF h(2)] signed_digits_Some [OF h(4)]
      signed_digits_Some [OF h(6)] signed_digits_Some [OF h(8)] signed_digits_Some [OF h(10)]
    by simp
  moreover have "is_number a" "is_number b" "is_number c" "is_number d" "is_number e"
    using signed_digits_Some [OF h(2)] signed_digits_Some [OF h(4)]
      signed_digits_Some [OF h(6)] signed_digits_Some [OF h(8)] signed_digits_Some [OF h(10)]
    by simp_all
  ultimately show ?thesis unfolding h(11) by auto
qed

lemma lwindex_re2_format:
  assumes "lwindex_re2 s = Some m"
  shows "\<exists>rest. s = ''Key='' @ g_Key m @ '',Pic='' @ g_Pic m @ '',POC='' @ g_POC m
                    @ '',Repeat='' @ g_Repeat m @ '',Field='' @ g_Field m @ rest
          \<and> is_number (g_Key m) \<and> is_number (g_Pic m) \<and> is_number (g_POC m)
          \<and> is_number (g_Repeat m) \<and> is_number (g_Field m)"
proof -
  from assms obtain r1 a r2 r3 b r4 r5 c r6 r7 d r8 r9 e r10 where
    h: "lit ''Key='' s = Some r1" "signed_digits r1 = Some (a, r2)"
       "lit '',Pic='' r2 = Some r3" "signed_digits r3 = Some (b, r4)"
       "lit '',POC='' r4 = Some r5" "signed_digits r5 = Some (c, r6)"
       "lit '',Repeat='' r6 = Some r7" "signed_digits r7 = Some (d, r8)"
       "lit '',Field='' r8 = Some r9" "signed_digits r9 = Some (e, r10)"
       "m = \<lparr>g_Key = a, g_Pic = b, g_POC = c, g_Repeat = d, g_Field = e\<rparr>"
    by (auto simp: lwindex_re2_def split: Option.bind_splits)
  have "s = ''Key='' @ a @ '',Pic='' @ b @ '',POC='' @ c @ '',Repeat='' @ d @ '',Field='' @ e @ r10"
    using lit_Some [OF h(1)] lit_Some [OF h(3)] lit_Some [OF h(5)] lit_Some [OF h(7)]
      lit_Some [OF h(9)] signed_digits_Some [OF h(2)] signed_digits_Some [OF h(4)]
      signed_digits_Some [OF h(6)] signed_digits_Some [OF h(8)] signed_digits_Some [OF h(10)]
    by simp
  moreover have "is_number a" "is_number b" "is_number c" "is_number d" "is_number e"
    using signed_digits_Some [OF h(2)] signed_digits_Some [OF h(4)]
      signed_digits_Some [OF h(6)] signed_digits_Some [OF h(8)] signed_digits_Some [OF h(10)]
    by simp_all
  ultimately show ?thesis unfolding h(11) by auto
qed

lemma streaminfo_re_format:
  assumes "streaminfo_re s = Some m"
  shows "\<exists>rest. s = ''Codec='' @ g_Codec m @ '',TimeBase='' @ g_TimeBase m @ '',Width=''
                    @ g_Width m @ '',Height='' @ g_Height m @ '',Format='' @ g_Format m
                    @ '',ColorSpace='' @ g_ColorSpace m @ rest
          \<and> digits (g_Codec m) \<and> g_TimeBase m \<noteq> [] \<and> list_all digit_or_slash (g_TimeBase m)
          \<and> digits (g_Width m) \<and> digits (g_Height m)
          \<and> g_Format m \<noteq> [] \<and> list_all alnum (g_Format m) \<and> digits (g_ColorSpace m)"
proof -
  from assms obtain r1 a r2 r3 b r4 r5 c r6 r7 d r8 r9 e r10 r11 f r12 where
    h: "lit ''Codec='' s = Some r1" "many1 digit r1 = Some (a, r2)"
       "lit '',TimeBase='' r2 = Some r3" "many1 digit_or_slash r3 = Some (b, r4)"
       "lit '',Width='' r4 = Some r5" "many1 digit r5 = Some (c, r6)"
       "lit '',Height='' r6 = Some r7" "many1 digit r7 = Some (d, r8)"
       "lit '',Format='' r8 = Some r9" "many1 alnum r9 = Some (e, r10)"
       "lit '',ColorSpace='' r10 = Some r11" "many1 digit r11 = Some (f, r12)"
       "m = \<lparr>g_Codec = a, g_TimeBase = b, g_Width = c, g_Height = d, g_Format = e,
              g_ColorSpace = f\<rparr>"
    by (auto simp: streaminfo_re_def split: Option.bind_splits)
  have "s = ''Codec='' @ a @ '',TimeBase='' @ b @ '',Width='' @ c @ '',Height='' @ d
              @ '',Format='' @ e @ '',ColorSpace='' @ f @ r12"
    using lit_Some [OF h(1)] lit_Some [OF h(3)] lit_Some [OF h(5)] lit_Some [OF h(7)]
      lit_Some [OF h(9)] lit_Some [OF h(11)] many1_Some [OF h(2)] many1_Some [OF h(4)]
      many1_Some [OF h(6)] many1_Some [OF h(8)] many1_Some [OF h(10)] many1_Some [OF h(12)]
    by simp
  moreover have "digits a" "b \<noteq> []" "list_all digit_or_slash b" "digits c" "digits d"
      "e \<noteq> []" "list_all alnum e" "digits f"
    using many1_Some [OF h(2)] many1_Some [OF h(4)]
      many1_Some [OF h(6)] many1_Some [OF h(8)] many1_Some [OF h(10)] many1_Some [OF h(12)]
    by (simp_all add: digits_def)
  ultimately show ?thesis unfolding h(13) by auto
qed

lemma streaminfo_re_TimeBase:
  "streaminfo_re s = Some m \<Longrightarrow> list_all digit_or_slash (g_TimeBase m)"
  using streaminfo_re_format [of s m] by blast

subsection \<open>Frame blocks\<close>

lemma subscript_block:
  assumes "Suc i < length index"
  shows "subscript (take 2 (drop i index)) 0 = Inr (index ! i)"
    and "subscript (take 2 (drop i index)) 1 = Inr (index ! Suc i)"
  using assms by (simp_all add: subscript_def len_def)

lemma LWIndexFrame_init_block:
  assumes "Suc i < length index"
  shows "LWIndexFrame_init (take 2 (drop i index)) =
     (case lwindex_re1 (index ! i) of
        None \<Rightarrow> Inl ValueError
      | Some m1 \<Rightarrow>
          (case lwindex_re2 (index ! Suc i) of
             None \<Rightarrow> Inl ValueError
           | Some m2 \<Rightarrow>
               if within_limit (g_PTS m1) \<and> within_limit (g_Key m2)
               then Inr \<lparr>pts = number_value (g_PTS m1), key = number_value (g_Key m2)\<rparr>
               else Inl ValueError))"
proof (cases "lwindex_re1 (index ! i)")
  case None
  with assms show ?thesis
    by (simp add: LWIndexFrame_init_def subscript_block)
next
  case m1: (Some m1)
  show ?thesis
  proof (cases "lwindex_re2 (index ! Suc i)")
    case None
    with assms m1 show ?thesis
      by (simp add: LWIndexFrame_init_def subscript_block)
  next
    case m2: (Some m2)
    from lwindex_re1_format [OF m1] have p: "is_number (g_PTS m1)" by blast
    from lwindex_re2_format [OF m2] have k: "is_number (g_Key m2)" by blast
    from assms m1 m2 show ?thesis
      by (simp add: LWIndexFrame_init_def subscript_block py_int_number [OF p] py_int_number [OF k])
  qed
qed

lemma LWIndexFrame_init_Inr:
  assumes "Suc i < length index" "block_matches index i" "block_converts index i"
  shows "\<exists>f. LWIndexFrame_init (take 2 (drop i index)) = Inr f"
  using assms(2,3) unfolding LWIndexFrame_init_block [OF assms(1)]
  by (auto simp: block_matches_def block_converts_def)

lemma LWIndexFrame_init_Inl:
  assumes "Suc i < length index" "LWIndexFrame_init (take 2 (drop i index)) = Inl e"
  shows "e = ValueError \<and> (\<not> block_matches index i \<or> \<not> block_converts index i)"
  using assms(2) unfolding LWIndexFrame_init_block [OF assms(1)]
  by (auto simp: block_matches_def block_converts_def split: option.splits if_splits)

lemma LWIndexFrame_init_valid:
  assumes "Suc i < length index" "LWIndexFrame_init (take 2 (drop i index)) = Inr f"
  shows "block_matches index i \<and> block_converts index i"
  using assms(2) unfolding LWIndexFrame_init_block [OF assms(1)]
  by (auto simp: block_matches_def block_converts_def split: option.splits if_splits)

lemma LWIndexFrame_init_frame:
  assumes "Suc i < length index" "LWIndexFrame_init (take 2 (drop i index)) = Inr f"
  shows "frame_block (index ! i) (index ! Suc i) f"
proof -
  from assms(2) obtain m1 m2 where
    m: "lwindex_re1 (index ! i) = Some m1" "lwindex_re2 (index ! Suc i) = Some m2"
       "f = \<lparr>pts = number_value (g_PTS m1), key = number_value (g_Key m2)\<rparr>"
    unfolding LWIndexFrame_init_block [OF assms(1)]
    by (auto split: option.splits if_splits)
  from lwindex_re1_format [OF m(1)] obtain rest0 where
    l0: "index ! i = ''Index='' @ g_Index m1 @ '',POS='' @ g_POS m1 @ '',PTS='' @ g_PTS m1
                    @ '',DTS='' @ g_DTS m1 @ '',EDI='' @ g_EDI m1 @ rest0"
        "is_number (g_Index m1)" "is_number (g_POS m1)" "is_number (g_PTS m1)"
        "is_number (g_DTS m1)" "is_number (g_EDI m1)"
    by blast
  from lwindex_re2_format [OF m(2)] obtain rest1 where
    l1: "index ! Suc i = ''Key='' @ g_Key m2 @ '',Pic='' @ g_Pic m2 @ '',POC='' @ g_POC m2
                    @ '',Repeat='' @ g_Repeat m2 @ '',Field='' @ g_Field m2 @ rest1"
        "is_number (g_Key m2)" "is_number (g_Pic m2)" "is_number (g_POC m2)"
        "is_number (g_Repeat m2)" "is_number (g_Field m2)"
    by blast
  have "pts f = number_value (g_PTS m1)" "key f = number_value (g_Key m2)"
    by (simp_all add: m(3))
  with l0 l1 show ?thesis
    unfolding frame_block_def frame_fields_def by blast
qed

lemma markers_Inr:
  assumes "markers index = Inr (s, e)"
  shows "0 < s \<and> s \<le> length index \<and> e < length index
         \<and> index ! (s - 1) = ''</StreamInfo>'' \<and> index ! e = ''</LibavReaderIndex>''"
  using assms by (auto simp: markers_def split: sum.splits dest: list_index_Inr)

lemma markers_Inl:
  "markers index = Inl err \<longleftrightarrow>
     (''</StreamInfo>'' \<notin> set index \<or> ''</LibavReaderIndex>'' \<notin> set index) \<and> err = ValueError"
  by (auto simp: markers_def list_index_Inl split: sum.splits dest: list_index_Inr_mem)

lemma markers_first:
  assumes "markers index = Inr (indexstart, indexend)"
  shows "\<exists>s. indexstart = Suc s \<and> first_index index ''</StreamInfo>'' s
             \<and> first_index index ''</LibavReaderIndex>'' indexend"
  using assms by (auto simp: markers_def split: sum.splits dest: list_index_first)

lemma read_frames_Inl:
  assumes "markers index = Inr (s, e)" "read_frames index s e = Inl err"
  shows "err = ValueError
         \<and> (\<exists>i \<in> set (range2 s e). \<not> block_matches index i \<or> \<not> block_converts index i)"
proof -
  from assms(2) obtain i where i: "i \<in> set (range2 s e)"
      "LWIndexFrame_init (take 2 (drop i index)) = Inl err"
    unfolding read_frames_def by (blast dest: traverse_Inl)
  from range2_bounds [OF i(1)] markers_Inr [OF assms(1)] have "Suc i < length index" by simp
  from LWIndexFrame_init_Inl [OF this i(2)] i(1) show ?thesis by blast
qed

lemma read_frames_nth:
  assumes "read_frames index s e = Inr fs" "j < length fs"
  shows "LWIndexFrame_init (take 2 (drop (s + 2 * j) index)) = Inr (fs ! j)"
    and "s + 2 * j < e"
proof -
  from assms(1) have a: "list_all2 (\<lambda>i y. LWIndexFrame_init (take 2 (drop i index)) = Inr y)
      (range2 s e) fs"
    unfolding read_frames_def by (rule traverse_Inr)
  then have l: "length (range2 s e) = length fs" by (rule list_all2_lengthD)
  from a assms(2) have "LWIndexFrame_init (take 2 (drop (range2 s e ! j) index)) = Inr (fs ! j)"
    by (simp add: list_all2_conv_all_nth)
  moreover from l assms(2) have "range2 s e ! j = s + 2 * j"
    by (simp add: range2_steps)
  ultimately show "LWIndexFrame_init (take 2 (drop (s + 2 * j) index)) = Inr (fs ! j)" by simp
  from l assms(2) have "range2 s e ! j \<in> set (range2 s e)" by simp
  with \<open>range2 s e ! j = s + 2 * j\<close> range2_bounds show "s + 2 * j < e" by metis
qed

lemma read_frames_length:
  assumes "read_frames index s e = Inr fs"
  shows "length fs = length (range2 s e)" and "length fs = (e + 1 - s) div 2"
proof -
  from assms show "length fs = length (range2 s e)"
    unfolding read_frames_def by (rule traverse_length)
  then show "length fs = (e + 1 - s) div 2" by (simp add: range2_steps)
qed

lemma read_frames_Inr:
  assumes "markers index = Inr (s, e)" "read_frames index s e = Inr fs"
  shows "\<forall>i \<in> set (range2 s e). block_matches index i \<and> block_converts index i"
proof
  fix i assume i: "i \<in> set (range2 s e)"
  from range2_bounds [OF i] markers_Inr [OF assms(1)] have b: "Suc i < length index" by simp
  from assms(2) have "list_all2 (\<lambda>i y. LWIndexFrame_init (take 2 (drop i index)) = Inr y) (range2 s e) fs"
    unfolding read_frames_def by (rule traverse_Inr)
  with i obtain y where "LWIndexFrame_init (take 2 (drop i index)) = Inr y"
    by (auto simp: list_all2_conv_all_nth in_set_conv_nth)
  from LWIndexFrame_init_valid [OF b this]
  show "block_matches index i \<and> block_converts index i" .
qed

lemma read_frames_blocks:
  assumes "markers index = Inr (s, e)" "read_frames index s e = Inr fs"
  shows "\<forall>j < length fs. frame_block (index ! (s + 2 * j)) (index ! (s + 2 * j + 1)) (fs ! j)"
proof (intro allI impI)
  fix j assume j: "j < length fs"
  from read_frames_nth [OF assms(2) j] markers_Inr [OF assms(1)]
  have "LWIndexFrame_init (take 2 (drop (s + 2 * j) index)) = Inr (fs ! j)"
    and "Suc (s + 2 * j) < length index" by simp_all
  from LWIndexFrame_init_frame [OF this(2) this(1)]
  show "frame_block (index ! (s + 2 * j)) (index ! (s + 2 * j + 1)) (fs ! j)" by simp
qed

lemma read_frames_cases:
  assumes "markers index = Inr (s, e)"
  shows "(\<exists>fs. read_frames index s e = Inr fs
            \<and> (\<forall>i \<in> set (range2 s e). block_matches index i \<and> block_converts index i))
       \<or> (read_frames index s e = Inl ValueError
            \<and> (\<exists>i \<in> set (range2 s e). \<not> block_matches index i \<or> \<not> block_converts index i))"
proof (cases "read_frames index s e")
  case (Inl err)
  from read_frames_Inl [OF assms Inl] Inl show ?thesis by simp
next
  case (Inr fs)
  from read_frames_Inr [OF assms Inr] Inr show ?thesis by simp
qed

subsection \<open>The time base\<close>

lemma split_on_parts_all: "\<forall>p \<in> set (split_on c s). set p \<subseteq> set s - {c}"
proof (induction s)
  case Nil
  show ?case by simp
next
  case (Cons x s)
  show ?case
  proof (cases "x = c")
    case True
    with Cons show ?thesis by auto
  next
    case False
    show ?thesis
    proof (cases "split_on c s")
      case Nil
      with False show ?thesis by simp
    next
      case (Cons p ps)
      with False \<open>\<forall>p\<in>set (split_on c s). set p \<subseteq> set s - {c}\<close> show ?thesis
        by auto
    qed
  qed
qed

lemma split_on_parts: "p \<in> set (split_on c s) \<Longrightarrow> set p \<subseteq> set s - {c}"
  using split_on_parts_all [of c s] by blast

lemma split_on_nonempty: "split_on c s \<noteq> []"
  by (induction s) (auto split: list.splits)

lemma split_on_one: "split_on c s = [a] \<Longrightarrow> s = a"
  by (induction s arbitrary: a) (auto simp: split_on_nonempty split: if_splits list.splits)

lemma split_on_two: "split_on c s = [a, b] \<Longrightarrow> s = a @ c # b"
  by (induction s arbitrary: a) (auto split: if_splits list.splits dest: split_on_one)

lemma split_on_line: "c \<notin> set l \<Longrightarrow> split_on c (l @ c # rest) = l # split_on c rest"
  by (induction l) (auto split: list.splits)

lemma split_on_none: "c \<notin> set l \<Longrightarrow> split_on c l = [l]"
  by (induction l) (auto split: list.splits)

lemma split_on_join: "c \<notin> set a \<Longrightarrow> c \<notin> set b \<Longrightarrow> split_on c (a @ c # b) = [a, b]"
  by (simp add: split_on_line split_on_none)

lemma timebase_parts_digits:
  assumes "list_all digit_or_slash tb" "p \<in> set (split_on (CHR ''/'') tb)"
  shows "list_all digit p"
  using split_on_parts [OF assms(2)] assms(1)
  by (auto simp: list_all_iff digit_or_slash_def)

lemma unpack_timebase_Inl: "unpack_timebase tb = Inl e \<Longrightarrow> e = ValueError"
  by (auto simp: unpack_timebase_def split: sum.splits list.splits dest!: traverse_Inl py_int_Inl)

lemma unpack_timebase_Inr:
  assumes "unpack_timebase tb = Inr (n, d)"
  shows "\<exists>a b. split_on (CHR ''/'') tb = [a, b] \<and> py_int a = Inr n \<and> py_int b = Inr d"
proof -
  from assms have "traverse py_int (split_on (CHR ''/'') tb) = Inr [n, d]"
    by (auto simp: unpack_timebase_def split: sum.splits list.splits)
  from traverse_Inr [OF this] show ?thesis
    by (auto simp: list_all2_Cons2)
qed

lemma unpack_timebase_value:
  assumes "list_all digit_or_slash tb" "unpack_timebase tb = Inr (n, d)"
  shows "\<exists>a b. split_on (CHR ''/'') tb = [a, b] \<and> tb = a @ ''/'' @ b
            \<and> digits a \<and> within_limit a \<and> digits b \<and> within_limit b
            \<and> n = decimal a \<and> d = decimal b"
proof -
  from unpack_timebase_Inr [OF assms(2)] obtain a b where
    ab: "split_on (CHR ''/'') tb = [a, b]" "py_int a = Inr n" "py_int b = Inr d" by blast
  have da: "list_all digit a" and db: "list_all digit b"
    using timebase_parts_digits [OF assms(1)] ab(1) by simp_all
  from ab(2) have "a \<noteq> []" by (auto simp: py_int_empty)
  with da have a: "digits a" by (simp add: digits_def)
  from ab(3) have "b \<noteq> []" by (auto simp: py_int_empty)
  with db have b: "digits b" by (simp add: digits_def)
  from ab(2) digits_number [OF a] have n: "within_limit a" "n = decimal a"
    by (simp_all add: py_int_Inr)
  from ab(3) digits_number [OF b] have d: "within_limit b" "d = decimal b"
    by (simp_all add: py_int_Inr)
  from split_on_two [OF ab(1)] have "tb = a @ ''/'' @ b" by simp
  with ab(1) a b n d show ?thesis by blast
qed

lemma unpack_timebase_nonneg:
  assumes "list_all digit_or_slash tb" "unpack_timebase tb = Inr (n, d)"
  shows "0 \<le> n \<and> 0 \<le> d"
  using unpack_timebase_value [OF assms] by (auto simp: digits_def decimal_nonneg)

lemma unpack_timebase_wellformed:
  assumes "list_all digit_or_slash tb"
  shows "(\<exists>nd. unpack_timebase tb = Inr nd) \<longleftrightarrow> timebase_wellformed tb"
proof
  assume "\<exists>nd. unpack_timebase tb = Inr nd"
  then obtain n d where "unpack_timebase tb = Inr (n, d)" by auto
  from unpack_timebase_value [OF assms this] show "timebase_wellformed tb"
    by (auto simp: timebase_wellformed_def digits_def)
next
  assume "timebase_wellformed tb"
  then obtain a b where ab: "split_on (CHR ''/'') tb = [a, b]"
      "digits a" "within_limit a" "digits b" "within_limit b"
    by (auto simp: timebase_wellformed_def digits_def split: list.splits)
  from digits_number [OF ab(2)] ab(3) have "py_int a = Inr (decimal a)"
    by (simp add: py_int_Inr)
  moreover from digits_number [OF ab(4)] ab(5) have "py_int b = Inr (decimal b)"
    by (simp add: py_int_Inr)
  ultimately show "\<exists>nd. unpack_timebase tb = Inr nd"
    using ab(1) by (simp add: unpack_timebase_def)
qed

lemma subscript_streaminfo:
  assumes "s < length index"
  shows "subscript index (int (Suc s) - 2) =
           Inr (index ! (if s = 0 then length index - 1 else s - 1))"
  using assms by (auto simp: subscript_def len_def Let_def nat_diff_distrib)

lemma read_timebase_cases:
  assumes "s < length index"
  shows "(read_timebase index (Suc s) = Inl ValueError
            \<and> (streaminfo_re (index ! (if s = 0 then length index - 1 else s - 1)) = None
               \<or> (\<exists>m. streaminfo_re (index ! (if s = 0 then length index - 1 else s - 1)) = Some m
                     \<and> \<not> timebase_wellformed (g_TimeBase m))))
       \<or> (\<exists>m a b. read_timebase index (Suc s) = Inr (decimal a, decimal b)
            \<and> streaminfo_re (index ! (if s = 0 then length index - 1 else s - 1)) = Some m
            \<and> timebase_wellformed (g_TimeBase m)
            \<and> split_on (CHR ''/'') (g_TimeBase m) = [a, b]
            \<and> g_TimeBase m = a @ ''/'' @ b \<and> digits a \<and> digits b)"
proof -
  let ?line = "index ! (if s = 0 then length index - 1 else s - 1)"
  show ?thesis
  proof (cases "streaminfo_re ?line")
    case None
    with subscript_streaminfo [OF assms] show ?thesis by (simp add: read_timebase_def)
  next
    case (Some m)
    from streaminfo_re_TimeBase [OF Some] have d: "list_all digit_or_slash (g_TimeBase m)" .
    from subscript_streaminfo [OF assms] Some
    have rt: "read_timebase index (Suc s) = unpack_timebase (g_TimeBase m)"
      by (simp add: read_timebase_def)
    show ?thesis
    proof (cases "unpack_timebase (g_TimeBase m)")
      case (Inl err)
      then have "err = ValueError" by (rule unpack_timebase_Inl)
      moreover from Inl unpack_timebase_wellformed [OF d]
      have "\<not> timebase_wellformed (g_TimeBase m)" by auto
      ultimately show ?thesis using Some rt Inl by simp
    next
      case (Inr nd)
      obtain n dd where nd: "nd = (n, dd)" by (cases nd)
      from Inr unpack_timebase_wellformed [OF d] have w: "timebase_wellformed (g_TimeBase m)"
        by auto
      from unpack_timebase_value [OF d Inr [unfolded nd]] obtain a b where
        ab: "split_on (CHR ''/'') (g_TimeBase m) = [a, b]" "g_TimeBase m = a @ ''/'' @ b"
        "digits a" "digits b" "n = decimal a" "dd = decimal b" by blast
      from rt Inr nd ab(5,6) have "read_timebase index (Suc s) = Inr (decimal a, decimal b)"
        by simp
      with Some w ab(1-4) show ?thesis by blast
    qed
  qed
qed

lemma read_timebase_format:
  assumes "s < length index" "read_timebase index (Suc s) = Inr (n, d)"
  shows "streaminfo_timebase (index ! (if s = 0 then length index - 1 else s - 1)) n d"
proof -
  let ?line = "index ! (if s = 0 then length index - 1 else s - 1)"
  from read_timebase_cases [OF assms(1)] assms(2) obtain m a b where
    h: "streaminfo_re ?line = Some m" "g_TimeBase m = a @ ''/'' @ b" "digits a" "digits b"
       "n = decimal a" "d = decimal b"
    by auto
  from streaminfo_re_format [OF h(1)] obtain rest where
    f: "?line = ''Codec='' @ g_Codec m @ '',TimeBase='' @ g_TimeBase m @ '',Width=''
                    @ g_Width m @ '',Height='' @ g_Height m @ '',Format='' @ g_Format m
                    @ '',ColorSpace='' @ g_ColorSpace m @ rest"
       "digits (g_Codec m)" "digits (g_Width m)" "digits (g_Height m)"
       "g_Format m \<noteq> []" "list_all alnum (g_Format m)" "digits (g_ColorSpace m)"
    by blast
  have "?line = ''Codec='' @ g_Codec m @ '',TimeBase='' @ a @ ''/'' @ b @ '',Width=''
                    @ g_Width m @ '',Height='' @ g_Height m @ '',Format='' @ g_Format m
                    @ '',ColorSpace='' @ g_ColorSpace m @ rest"
    using f(1) unfolding h(2) by simp
  with f(2-7) h(3-6) show ?thesis
    unfolding streaminfo_timebase_def streaminfo_fields_def by blast
qed

lemma read_timebase_nonneg:
  assumes "read_timebase index s = Inr (n, d)"
  shows "0 \<le> n \<and> 0 \<le> d"
  using assms
  by (auto simp: read_timebase_def split: sum.splits option.splits
           dest!: streaminfo_re_TimeBase dest: unpack_timebase_nonneg)

subsection \<open>The format determines what is read\<close>

lemma first_index_unique: "first_index xs v i \<Longrightarrow> first_index xs v j \<Longrightarrow> i = j"
proof (rule ccontr)
  assume a: "first_index xs v i" "first_index xs v j" "i \<noteq> j"
  then consider "i < j" | "j < i" by linarith
  then show False
  proof cases
    case 1
    with a(1) have "v \<in> set (take j xs)"
      by (auto simp: first_index_def in_set_conv_nth intro!: exI [of _ i])
    with a(2) show False by (simp add: first_index_def)
  next
    case 2
    with a(2) have "v \<in> set (take i xs)"
      by (auto simp: first_index_def in_set_conv_nth intro!: exI [of _ j])
    with a(1) show False by (simp add: first_index_def)
  qed
qed

lemma many1_complete:
  assumes "g \<noteq> []" "list_all P g" "\<not> P c"
  shows "many1 P (g @ c # r) = Some (g, c # r)"
proof -
  from assms(2) have "\<forall>x \<in> set g. P x" by (simp add: list_all_iff)
  then have "takeWhile P (g @ c # r) = g @ takeWhile P (c # r)"
    and "dropWhile P (g @ c # r) = dropWhile P (c # r)"
    by (simp_all add: takeWhile_append2 dropWhile_append2)
  with assms(1,3) show ?thesis by (simp add: many1_def)
qed

lemma many1_last:
  assumes "g \<noteq> []" "list_all P g"
  shows "\<exists>g' r'. many1 P (g @ r) = Some (g', r')"
proof -
  from assms obtain x xs where "g = x # xs" "P x" by (cases g) auto
  then show ?thesis by (simp add: many1_def)
qed

lemma signed_digits_complete:
  assumes "is_number g" "\<not> digit c"
  shows "signed_digits (g @ c # r) = Some (g, c # r)"
proof (cases "g \<noteq> [] \<and> hd g = CHR ''-''")
  case True
  then obtain ds where g: "g = CHR ''-'' # ds" by (cases g) auto
  with assms(1) have "ds \<noteq> []" "list_all digit ds" by (simp_all add: is_number_def digits_def)
  from many1_complete [OF this assms(2)] g show ?thesis
    by (simp add: signed_digits_def)
next
  case False
  with assms(1) have d: "g \<noteq> []" "list_all digit g" by (simp_all add: is_number_def digits_def)
  from d False have "\<not> (g @ c # r \<noteq> [] \<and> hd (g @ c # r) = CHR ''-'')"
    by (cases g) auto
  with many1_complete [OF d assms(2)] show ?thesis
    by (simp add: signed_digits_def)
qed

lemma signed_digits_last:
  assumes "is_number g"
  shows "\<exists>g' r'. signed_digits (g @ r) = Some (g', r')"
proof (cases "g \<noteq> [] \<and> hd g = CHR ''-''")
  case True
  then obtain ds where g: "g = CHR ''-'' # ds" by (cases g) auto
  with assms have "ds \<noteq> []" "list_all digit ds" by (simp_all add: is_number_def digits_def)
  from many1_last [OF this, of r] g show ?thesis
    by (auto simp: signed_digits_def)
next
  case False
  with assms have d: "g \<noteq> []" "list_all digit g" by (simp_all add: is_number_def digits_def)
  from d False have "\<not> (g @ r \<noteq> [] \<and> hd (g @ r) = CHR ''-'')"
    by (cases g) auto
  with many1_last [OF d, of r] show ?thesis
    by (auto simp: signed_digits_def)
qed

lemma not_digit_comma: "\<not> digit (CHR '','')"
  by (simp add: digit_def)

lemma lwindex_re1_complete:
  assumes "is_number idx" "is_number pos" "is_number p" "is_number dts" "is_number edi"
  shows "\<exists>m. lwindex_re1 (''Index='' @ idx @ '',POS='' @ pos @ '',PTS='' @ p @ '',DTS='' @ dts
                            @ '',EDI='' @ edi @ rest) = Some m
           \<and> g_Index m = idx \<and> g_POS m = pos \<and> g_PTS m = p \<and> g_DTS m = dts"
proof -
  from signed_digits_last [OF assms(5), of rest] obtain g' r' where
    e: "signed_digits (edi @ rest) = Some (g', r')" by blast
  show ?thesis
    by (simp add: lwindex_re1_def lit_def e
          signed_digits_complete [OF assms(1) not_digit_comma]
          signed_digits_complete [OF assms(2) not_digit_comma]
          signed_digits_complete [OF assms(3) not_digit_comma]
          signed_digits_complete [OF assms(4) not_digit_comma])
qed

lemma lwindex_re2_complete:
  assumes "is_number k" "is_number pic" "is_number poc" "is_number rep" "is_number fld"
  shows "\<exists>m. lwindex_re2 (''Key='' @ k @ '',Pic='' @ pic @ '',POC='' @ poc @ '',Repeat='' @ rep
                            @ '',Field='' @ fld @ rest) = Some m
           \<and> g_Key m = k \<and> g_Pic m = pic \<and> g_POC m = poc \<and> g_Repeat m = rep"
proof -
  from signed_digits_last [OF assms(5), of rest] obtain g' r' where
    e: "signed_digits (fld @ rest) = Some (g', r')" by blast
  show ?thesis
    by (simp add: lwindex_re2_def lit_def e
          signed_digits_complete [OF assms(1) not_digit_comma]
          signed_digits_complete [OF assms(2) not_digit_comma]
          signed_digits_complete [OF assms(3) not_digit_comma]
          signed_digits_complete [OF assms(4) not_digit_comma])
qed

lemma frame_block_parse:
  assumes "frame_block line0 line1 f"
  shows "\<exists>m1 m2. lwindex_re1 line0 = Some m1 \<and> lwindex_re2 line1 = Some m2
           \<and> pts f = number_value (g_PTS m1) \<and> key f = number_value (g_Key m2)"
proof -
  from assms obtain idx pos p dts edi rest0 k pic poc rep fld rest1 where
    h: "line0 = ''Index='' @ idx @ '',POS='' @ pos @ '',PTS='' @ p @ '',DTS='' @ dts
                  @ '',EDI='' @ edi @ rest0"
       "is_number idx" "is_number pos" "is_number p" "is_number dts" "is_number edi"
       "line1 = ''Key='' @ k @ '',Pic='' @ pic @ '',POC='' @ poc @ '',Repeat='' @ rep
                  @ '',Field='' @ fld @ rest1"
       "is_number k" "is_number pic" "is_number poc" "is_number rep" "is_number fld"
       "pts f = number_value p" "key f = number_value k"
    unfolding frame_block_def frame_fields_def by blast
  from lwindex_re1_complete [OF h(2-6), of rest0] h(1) obtain m1 where
    "lwindex_re1 line0 = Some m1" "g_PTS m1 = p" by auto
  moreover from lwindex_re2_complete [OF h(8-12), of rest1] h(7) obtain m2 where
    "lwindex_re2 line1 = Some m2" "g_Key m2 = k" by auto
  ultimately show ?thesis using h(13,14) by auto
qed

lemma frame_block_unique:
  assumes "frame_block line0 line1 f" "frame_block line0 line1 g"
  shows "f = g"
  using frame_block_parse [OF assms(1)] frame_block_parse [OF assms(2)] by auto

lemma block_matches_format:
  "block_matches index i \<longleftrightarrow> (\<exists>f. frame_block (index ! i) (index ! Suc i) f)"
proof
  assume "block_matches index i"
  then obtain m1 m2 where m: "lwindex_re1 (index ! i) = Some m1" "lwindex_re2 (index ! Suc i) = Some m2"
    by (auto simp: block_matches_def)
  from lwindex_re1_format [OF m(1)] lwindex_re2_format [OF m(2)]
  have "frame_block (index ! i) (index ! Suc i)
          \<lparr>pts = number_value (g_PTS m1), key = number_value (g_Key m2)\<rparr>"
    unfolding frame_block_def frame_fields_def by (elim exE conjE) (simp, blast)
  then show "\<exists>f. frame_block (index ! i) (index ! Suc i) f" ..
next
  assume "\<exists>f. frame_block (index ! i) (index ! Suc i) f"
  then obtain f where "frame_block (index ! i) (index ! Suc i) f" ..
  from frame_block_parse [OF this] show "block_matches index i"
    by (auto simp: block_matches_def)
qed

lemma digits_no_slash: "digits a \<Longrightarrow> CHR ''/'' \<notin> set a"
  by (auto simp: digits_def list_all_iff digit_def)

lemma many1_timebase:
  assumes "digits a" "digits b"
  shows "many1 digit_or_slash (a @ CHR ''/'' # b @ CHR '','' # r)
           = Some (a @ CHR ''/'' # b, CHR '','' # r)"
proof -
  from assms have "a @ CHR ''/'' # b \<noteq> []" "list_all digit_or_slash (a @ CHR ''/'' # b)"
    by (auto simp: digits_def list_all_iff digit_or_slash_def)
  moreover have "\<not> digit_or_slash (CHR '','')"
    by (simp add: digit_or_slash_def digit_def)
  ultimately have "many1 digit_or_slash ((a @ CHR ''/'' # b) @ CHR '','' # r)
           = Some (a @ CHR ''/'' # b, CHR '','' # r)"
    by (rule many1_complete)
  then show ?thesis by simp
qed

lemma digits_many1: "digits g \<Longrightarrow> many1 digit (g @ CHR '','' # r) = Some (g, CHR '','' # r)"
  by (simp add: digits_def many1_complete not_digit_comma)

lemma streaminfo_re_complete:
  assumes "digits codec" "digits a" "digits b" "digits w" "digits h"
    "fmt \<noteq> []" "list_all alnum fmt" "digits cs"
  shows "\<exists>m. streaminfo_re (''Codec='' @ codec @ '',TimeBase='' @ a @ ''/'' @ b @ '',Width='' @ w
            @ '',Height='' @ h @ '',Format='' @ fmt @ '',ColorSpace='' @ cs @ rest) = Some m
           \<and> g_TimeBase m = a @ ''/'' @ b"
proof -
  from assms(8) have "cs \<noteq> []" "list_all digit cs" by (simp_all add: digits_def)
  from many1_last [OF this, of rest] obtain g' r' where
    e: "many1 digit (cs @ rest) = Some (g', r')" by blast
  have "\<not> alnum (CHR '','')" by (simp add: alnum_def digit_def)
  from many1_complete [OF assms(6,7) this]
  have f: "\<And>r. many1 alnum (fmt @ CHR '','' # r) = Some (fmt, CHR '','' # r)" .
  show ?thesis
    by (simp add: streaminfo_re_def lit_def e f many1_timebase [OF assms(2,3)]
          digits_many1 [OF assms(1)] digits_many1 [OF assms(4)] digits_many1 [OF assms(5)])
qed

lemma streaminfo_timebase_parse:
  assumes "streaminfo_timebase line n d"
  shows "\<exists>m a b. streaminfo_re line = Some m \<and> g_TimeBase m = a @ ''/'' @ b
           \<and> digits a \<and> digits b \<and> n = decimal a \<and> d = decimal b"
proof -
  from assms obtain codec a b w h fmt cs rest where
    h: "line = ''Codec='' @ codec @ '',TimeBase='' @ a @ ''/'' @ b @ '',Width='' @ w
                 @ '',Height='' @ h @ '',Format='' @ fmt @ '',ColorSpace='' @ cs @ rest"
       "digits codec" "digits a" "digits b" "digits w" "digits h"
       "fmt \<noteq> []" "list_all alnum fmt" "digits cs"
       "n = decimal a" "d = decimal b"
    unfolding streaminfo_timebase_def streaminfo_fields_def by blast
  from streaminfo_re_complete [OF h(2-9), of rest] h(1) obtain m where
    "streaminfo_re line = Some m" "g_TimeBase m = a @ ''/'' @ b" by auto
  with h(3,4,10,11) show ?thesis by blast
qed

lemma takeWhile_until: "c \<notin> set a \<Longrightarrow> takeWhile (\<lambda>x. x \<noteq> c) (a @ c # b) = a"
  by (induction a) auto

lemma timebase_parts_unique:
  assumes "digits a" "digits a'" "a @ ''/'' @ b = a' @ ''/'' @ b'"
  shows "a = a' \<and> b = b'"
proof -
  have "takeWhile (\<lambda>x. x \<noteq> CHR ''/'') (a @ CHR ''/'' # b) = a"
    using digits_no_slash [OF assms(1)] by (rule takeWhile_until)
  moreover have "takeWhile (\<lambda>x. x \<noteq> CHR ''/'') (a' @ CHR ''/'' # b') = a'"
    using digits_no_slash [OF assms(2)] by (rule takeWhile_until)
  ultimately have "a = a'" using assms(3) by simp
  with assms(3) show ?thesis by simp
qed

lemma streaminfo_timebase_unique:
  assumes "streaminfo_timebase line n d" "streaminfo_timebase line n' d'"
  shows "n = n' \<and> d = d'"
proof -
  from streaminfo_timebase_parse [OF assms(1)] obtain m a b where
    1: "streaminfo_re line = Some m" "g_TimeBase m = a @ ''/'' @ b" "digits a"
       "n = decimal a" "d = decimal b" by blast
  from streaminfo_timebase_parse [OF assms(2)] obtain m' a' b' where
    2: "streaminfo_re line = Some m'" "g_TimeBase m' = a' @ ''/'' @ b'" "digits a'"
       "n' = decimal a'" "d' = decimal b'" by blast
  from 1(1) 2(1) have "m = m'" by simp
  with 1(2) 2(2) have "a @ ''/'' @ b = a' @ ''/'' @ b'" by simp
  from timebase_parts_unique [OF 1(3) 2(3) this] 1(4,5) 2(4,5) show ?thesis by simp
qed

subsection \<open>A successful run\<close>

lemma info_from_lwindex_Inr:
  assumes "info_from_lwindex index = Inr r"
  shows "\<exists>indexstart indexend document_frames timebase_num timebase_den.
    markers index = Inr (indexstart, indexend) \<and>
    read_frames index indexstart indexend = Inr document_frames \<and>
    read_timebase index indexstart = Inr (timebase_num, timebase_den) \<and>
    (timebase_den = 0 \<longrightarrow> document_frames = []) \<and>
    timecodes r = map (\<lambda>f. (pts f * 1000 * timebase_num) div timebase_den)
                    (sort_key pts document_frames) \<and>
    keyframes r = map fst (filter (\<lambda>(i, f). key f \<noteq> 0)
                    (enumerate 0 (sort_key pts document_frames)))"
proof (cases "markers index")
  case (Inl e)
  with assms show ?thesis by (simp add: info_from_lwindex_def)
next
  case (Inr se)
  obtain s e where se: "se = (s, e)" by (cases se)
  show ?thesis
  proof (cases "read_frames index s e")
    case (Inl err)
    with assms Inr se show ?thesis by (simp add: info_from_lwindex_def)
  next
    case fs: (Inr fs)
    show ?thesis
    proof (cases "read_timebase index s")
      case (Inl err)
      with assms Inr se fs show ?thesis by (simp add: info_from_lwindex_def)
    next
      case tb: (Inr nd)
      obtain n d where nd: "nd = (n, d)" by (cases nd)
      have nz: "\<not> (d = 0 \<and> sort_key pts fs \<noteq> [])"
        using assms Inr se fs tb nd by (auto simp: info_from_lwindex_def Let_def split: if_splits)
      then have r: "r = \<lparr>timecodes = map (\<lambda>f. (pts f * 1000 * n) div d) (sort_key pts fs),
            keyframes = map fst (filter (\<lambda>(i, f). key f \<noteq> 0) (enumerate 0 (sort_key pts fs)))\<rparr>"
        using assms Inr se fs tb nd by (auto simp: info_from_lwindex_def Let_def split: if_splits)
      have "d = 0 \<longrightarrow> fs = []"
      proof
        assume "d = 0"
        with nz have "sort_key pts fs = []" by simp
        then have "length (sort_key pts fs) = 0" by simp
        then show "fs = []" by simp
      qed
      with Inr se fs tb nd r show ?thesis by simp
    qed
  qed
qed

lemma info_from_lwindex_reads:
  assumes "info_from_lwindex index = Inr r"
  shows "\<exists>s e frames num den.
           first_index index ''</StreamInfo>'' s
         \<and> first_index index ''</LibavReaderIndex>'' e
         \<and> streaminfo_timebase (index ! (if s = 0 then length index - 1 else s - 1)) num den
         \<and> length frames = (e - s) div 2
         \<and> (\<forall>j < length frames.
               frame_block (index ! (Suc s + 2 * j)) (index ! (Suc s + 2 * j + 1)) (frames ! j))
         \<and> (den = 0 \<longrightarrow> frames = [])
         \<and> timecodes r = map (\<lambda>f. (pts f * 1000 * num) div den) (sort_key pts frames)
         \<and> keyframes r = map fst (filter (\<lambda>(i, f). key f \<noteq> 0)
                            (enumerate 0 (sort_key pts frames)))"
proof -
  from info_from_lwindex_Inr [OF assms] obtain indexstart e fs n d where
    h: "markers index = Inr (indexstart, e)" "read_frames index indexstart e = Inr fs"
       "read_timebase index indexstart = Inr (n, d)" "d = 0 \<longrightarrow> fs = []"
       "timecodes r = map (\<lambda>f. (pts f * 1000 * n) div d) (sort_key pts fs)"
       "keyframes r = map fst (filter (\<lambda>(i, f). key f \<noteq> 0) (enumerate 0 (sort_key pts fs)))"
    by blast
  from markers_first [OF h(1)] obtain s where
    s: "indexstart = Suc s" "first_index index ''</StreamInfo>'' s"
       "first_index index ''</LibavReaderIndex>'' e"
    by blast
  from s(2) have sl: "s < length index" by (simp add: first_index_def)
  from read_timebase_format [OF sl h(3) [unfolded s(1)]]
  have tb: "streaminfo_timebase (index ! (if s = 0 then length index - 1 else s - 1)) n d" .
  from read_frames_length(2) [OF h(2)] s(1) have len: "length fs = (e - s) div 2" by simp
  from read_frames_blocks [OF h(1,2)] s(1)
  have blocks: "\<forall>j < length fs.
      frame_block (index ! (Suc s + 2 * j)) (index ! (Suc s + 2 * j + 1)) (fs ! j)"
    by simp
  from s(2,3) tb len blocks h(4-6) show ?thesis by blast
qed

lemma positions_enumerate:
  "map fst (filter (\<lambda>(i, x). P x) (enumerate 0 xs)) = filter (\<lambda>i. P (xs ! i)) [0..<length xs]"
proof (induction xs rule: rev_induct)
  case Nil
  show ?case by simp
next
  case (snoc x xs)
  have "filter (\<lambda>i. P ((xs @ [x]) ! i)) [0..<length xs] = filter (\<lambda>i. P (xs ! i)) [0..<length xs]"
    by (rule filter_cong) (auto simp: nth_append)
  with snoc show ?case
    by (simp add: enumerate_append_eq)
qed

lemma timecode_mono:
  assumes "0 \<le> n" "0 \<le> d" "a \<le> b"
  shows "(a * 1000 * n) div d \<le> (b * 1000 * n) div (d::int)"
proof (cases "d = 0")
  case True
  then show ?thesis by simp
next
  case False
  with assms(2) have "0 < d" by simp
  moreover from assms(1,3) have "a * 1000 * n \<le> b * 1000 * n"
    by (simp add: mult_right_mono)
  ultimately show ?thesis by (rule zdiv_mono1 [rotated])
qed

lemma timecodes_sorted:
  assumes "0 \<le> n" "0 \<le> d"
  shows "sorted (map (\<lambda>f. (pts f * 1000 * n) div d) (sort_key pts fs))"
proof -
  have "sorted (map pts (sort_key pts fs))" by simp
  then have "sorted_wrt (\<lambda>x y. pts x \<le> pts y) (sort_key pts fs)"
    by (simp add: sorted_map)
  then have "sorted_wrt (\<lambda>x y. (pts x * 1000 * n) div d \<le> (pts y * 1000 * n) div d) (sort_key pts fs)"
    by (rule sorted_wrt_mono_rel [rotated]) (simp add: timecode_mono assms)
  then show ?thesis by (simp add: sorted_map)
qed

subsection \<open>Timecodes and keyframes\<close>

lemma frame_block_fields:
  assumes "is_number idx" "is_number pos" "is_number p" "is_number dts" "is_number edi"
    "is_number k" "is_number pic" "is_number poc" "is_number rep" "is_number fld"
  shows "frame_block
     (''Index='' @ idx @ '',POS='' @ pos @ '',PTS='' @ p @ '',DTS='' @ dts @ '',EDI='' @ edi @ rest0)
     (''Key='' @ k @ '',Pic='' @ pic @ '',POC='' @ poc @ '',Repeat='' @ rep @ '',Field='' @ fld @ rest1)
     \<lparr>pts = number_value p, key = number_value k\<rparr>"
  unfolding frame_block_def frame_fields_def using assms by force

lemma streaminfo_timebase_fields:
  assumes "digits codec" "digits a" "digits b" "digits w" "digits h"
    "fmt \<noteq> []" "list_all alnum fmt" "digits cs"
  shows "streaminfo_timebase
     (''Codec='' @ codec @ '',TimeBase='' @ a @ ''/'' @ b @ '',Width='' @ w
        @ '',Height='' @ h @ '',Format='' @ fmt @ '',ColorSpace='' @ cs @ rest)
     (decimal a) (decimal b)"
  unfolding streaminfo_timebase_def streaminfo_fields_def using assms by blast

lemma example_markers: "markers example_index = Inr (3, 9)"
  unfolding example_index_def by code_simp

lemma example_frames:
  "read_frames example_index 3 9 =
     Inr [\<lparr>pts = 0, key = 1\<rparr>, \<lparr>pts = 40, key = 0\<rparr>, \<lparr>pts = 20, key = 0\<rparr>]"
  unfolding example_index_def by code_simp

lemma example_timebase: "read_timebase example_index 3 = Inr (1, 1000)"
  unfolding example_index_def by code_simp

lemma example_info:
  "info_from_lwindex example_index = Inr \<lparr>timecodes = [0, 20, 40], keyframes = [0]\<rparr>"
  unfolding example_index_def by code_simp

lemma ntsc_info:
  "info_from_lwindex ntsc_index = Inr \<lparr>timecodes = [0, 33, 66, 100], keyframes = [0, 2, 3]\<rparr>"
  unfolding ntsc_index_def by code_simp

lemma ntsc_timebase: "streaminfo_timebase (ntsc_index ! 1) 1001 30000"
proof -
  have "streaminfo_timebase
     (''Codec='' @ ''27'' @ '',TimeBase='' @ ''1001'' @ ''/'' @ ''30000'' @ '',Width='' @ ''1920''
        @ '',Height='' @ ''1080'' @ '',Format='' @ ''yuv420p'' @ '',ColorSpace='' @ ''1'' @ [])
     (decimal ''1001'') (decimal ''30000'')"
    by (rule streaminfo_timebase_fields) (simp_all add: digits_def digit_def alnum_def)
  moreover have "decimal ''1001'' = 1001" "decimal ''30000'' = 30000"
    by (simp_all add: decimal_def digit_value_def)
  ultimately show ?thesis by (simp add: ntsc_index_def)
qed

lemma ntsc_blocks:
  "frame_block (ntsc_index ! 3) (ntsc_index ! 4) \<lparr>pts = 0, key = 1\<rparr>"
  "frame_block (ntsc_index ! 5) (ntsc_index ! 6) \<lparr>pts = 3, key = - 1\<rparr>"
  "frame_block (ntsc_index ! 7) (ntsc_index ! 8) \<lparr>pts = 1, key = 0\<rparr>"
  "frame_block (ntsc_index ! 9) (ntsc_index ! 10) \<lparr>pts = 2, key = 2\<rparr>"
proof -
  have n: "is_number ''0''" "is_number ''1''" "is_number ''2''" "is_number ''3''"
    "is_number ''4''" "is_number ''6''" "is_number ''-1''"
    "is_number ''100''" "is_number ''200''" "is_number ''300''" "is_number ''400''"
    by (simp_all add: is_number_def digits_def digit_def)
  have v: "number_value ''0'' = 0" "number_value ''1'' = 1" "number_value ''2'' = 2"
    "number_value ''3'' = 3" "number_value ''-1'' = - 1"
    by (simp_all add: number_value_def decimal_def digit_value_def)
  have "frame_block
     (''Index='' @ ''0'' @ '',POS='' @ ''100'' @ '',PTS='' @ ''0'' @ '',DTS='' @ ''-1'' @ '',EDI='' @ ''0'' @ [])
     (''Key='' @ ''1'' @ '',Pic='' @ ''1'' @ '',POC='' @ ''0'' @ '',Repeat='' @ ''1'' @ '',Field='' @ ''0'' @ [])
     \<lparr>pts = number_value ''0'', key = number_value ''1''\<rparr>"
    by (rule frame_block_fields) (rule n)+
  then show "frame_block (ntsc_index ! 3) (ntsc_index ! 4) \<lparr>pts = 0, key = 1\<rparr>"
    unfolding v by (simp add: ntsc_index_def)
  have "frame_block
     (''Index='' @ ''0'' @ '',POS='' @ ''200'' @ '',PTS='' @ ''3'' @ '',DTS='' @ ''0'' @ '',EDI='' @ ''0'' @ [])
     (''Key='' @ ''-1'' @ '',Pic='' @ ''2'' @ '',POC='' @ ''6'' @ '',Repeat='' @ ''1'' @ '',Field='' @ ''0'' @ [])
     \<lparr>pts = number_value ''3'', key = number_value ''-1''\<rparr>"
    by (rule frame_block_fields) (rule n)+
  then show "frame_block (ntsc_index ! 5) (ntsc_index ! 6) \<lparr>pts = 3, key = - 1\<rparr>"
    unfolding v by (simp add: ntsc_index_def)
  have "frame_block
     (''Index='' @ ''0'' @ '',POS='' @ ''300'' @ '',PTS='' @ ''1'' @ '',DTS='' @ ''1'' @ '',EDI='' @ ''0'' @ [])
     (''Key='' @ ''0'' @ '',Pic='' @ ''3'' @ '',POC='' @ ''2'' @ '',Repeat='' @ ''1'' @ '',Field='' @ ''0'' @ [])
     \<lparr>pts = number_value ''1'', key = number_value ''0''\<rparr>"
    by (rule frame_block_fields) (rule n)+
  then show "frame_block (ntsc_index ! 7) (ntsc_index ! 8) \<lparr>pts = 1, key = 0\<rparr>"
    unfolding v by (simp add: ntsc_index_def)
  have "frame_block
     (''Index='' @ ''0'' @ '',POS='' @ ''400'' @ '',PTS='' @ ''2'' @ '',DTS='' @ ''2'' @ '',EDI='' @ ''0'' @ [])
     (''Key='' @ ''2'' @ '',Pic='' @ ''3'' @ '',POC='' @ ''4'' @ '',Repeat='' @ ''1'' @ '',Field='' @ ''0'' @ [])
     \<lparr>pts = number_value ''2'', key = number_value ''2''\<rparr>"
    by (rule frame_block_fields) (rule n)+
  then show "frame_block (ntsc_index ! 9) (ntsc_index ! 10) \<lparr>pts = 2, key = 2\<rparr>"
    unfolding v by (simp add: ntsc_index_def)
qed

lemma ntsc_markers:
  "first_index ntsc_index ''</StreamInfo>'' 2"
  "first_index ntsc_index ''</LibavReaderIndex>'' 11"
  unfolding ntsc_index_def by code_simp+

lemma ntsc_frames_unique:
  assumes "first_index ntsc_index ''</StreamInfo>'' s"
    and "first_index ntsc_index ''</LibavReaderIndex>'' e"
    and "length frames = (e - s) div 2"
    and "\<forall>j < length frames.
           frame_block (ntsc_index ! (Suc s + 2 * j)) (ntsc_index ! (Suc s + 2 * j + 1)) (frames ! j)"
  shows "s = 2" and "e = 11"
    and "frames = [\<lparr>pts = 0, key = 1\<rparr>, \<lparr>pts = 3, key = - 1\<rparr>,
                   \<lparr>pts = 1, key = 0\<rparr>, \<lparr>pts = 2, key = 2\<rparr>]"
proof -
  show s: "s = 2" using assms(1) ntsc_markers(1) by (rule first_index_unique)
  show e: "e = 11" using assms(2) ntsc_markers(2) by (rule first_index_unique)
  from assms(3) s e have l: "length frames = 4" by simp
  from assms(4) l s have "frame_block (ntsc_index ! 3) (ntsc_index ! 4) (frames ! 0)"
    "frame_block (ntsc_index ! 5) (ntsc_index ! 6) (frames ! 1)"
    "frame_block (ntsc_index ! 7) (ntsc_index ! 8) (frames ! 2)"
    "frame_block (ntsc_index ! 9) (ntsc_index ! 10) (frames ! 3)"
    by (auto dest: spec [of _ 0] spec [of _ 1] spec [of _ 2] spec [of _ 3])
  then have f: "frames ! 0 = \<lparr>pts = 0, key = 1\<rparr>" "frames ! 1 = \<lparr>pts = 3, key = - 1\<rparr>"
    "frames ! 2 = \<lparr>pts = 1, key = 0\<rparr>" "frames ! 3 = \<lparr>pts = 2, key = 2\<rparr>"
    using ntsc_blocks by (auto intro: frame_block_unique)
  from l obtain a b c d where "frames = [a, b, c, d]"
    by (auto simp: length_Suc_conv eval_nat_numeral)
  with f show "frames = [\<lparr>pts = 0, key = 1\<rparr>, \<lparr>pts = 3, key = - 1\<rparr>,
                   \<lparr>pts = 1, key = 0\<rparr>, \<lparr>pts = 2, key = 2\<rparr>]"
    by (simp add: eval_nat_numeral)
qed

text \<open>
  C2. When \<open>info_from_lwindex\<close> returns, the file has its two markers, the line before
  the StreamInfo marker gives the time base \<open>num/den\<close> in its TimeBase field, the lines
  between the markers are the frame blocks, two lines each, and \<open>timecodes\<close> has one entry
  per block: the entry at each position is the floor of \<open>pts * 1000 * num / den\<close> for the
  frame at that position after the frames are sorted by \<open>pts\<close>. When the marker is the
  first line of the file, the line before it is the last line, as a negative subscript
  counts from the end.
\<close>

theorem info_from_lwindex_timecodes:
  assumes "info_from_lwindex index = Inr r"
  shows "\<exists>s e frames num den.
           first_index index ''</StreamInfo>'' s
         \<and> first_index index ''</LibavReaderIndex>'' e
         \<and> streaminfo_timebase (index ! (if s = 0 then length index - 1 else s - 1)) num den
         \<and> length frames = (e - s) div 2
         \<and> (\<forall>j < length frames.
               frame_block (index ! (Suc s + 2 * j)) (index ! (Suc s + 2 * j + 1)) (frames ! j))
         \<and> length (timecodes r) = length frames
         \<and> timecodes r =
             map (\<lambda>f. \<lfloor>real_of_int (pts f * 1000 * num) / real_of_int den\<rfloor>)
                 (sort_key pts frames)"
proof -
  from info_from_lwindex_reads [OF assms] obtain s e frames num den where
    h: "first_index index ''</StreamInfo>'' s" "first_index index ''</LibavReaderIndex>'' e"
       "streaminfo_timebase (index ! (if s = 0 then length index - 1 else s - 1)) num den"
       "length frames = (e - s) div 2"
       "\<forall>j < length frames.
          frame_block (index ! (Suc s + 2 * j)) (index ! (Suc s + 2 * j + 1)) (frames ! j)"
       "timecodes r = map (\<lambda>f. (pts f * 1000 * num) div den) (sort_key pts frames)"
    by blast
  have "timecodes r =
      map (\<lambda>f. \<lfloor>real_of_int (pts f * 1000 * num) / real_of_int den\<rfloor>) (sort_key pts frames)"
    unfolding h(6) by (simp only: floor_divide_of_int_eq)
  moreover have "length (timecodes r) = length frames"
    unfolding h(6) by simp
  ultimately show ?thesis using h(1-5) by blast
qed

theorem info_from_lwindex_timecodes_witness:
  "info_from_lwindex ntsc_index = Inr \<lparr>timecodes = [0, 33, 66, 100], keyframes = [0, 2, 3]\<rparr>
   \<and> first_index ntsc_index ''</StreamInfo>'' 2
   \<and> first_index ntsc_index ''</LibavReaderIndex>'' 11
   \<and> streaminfo_timebase (ntsc_index ! 1) 1001 30000
   \<and> frame_block (ntsc_index ! 3) (ntsc_index ! 4) \<lparr>pts = 0, key = 1\<rparr>
   \<and> frame_block (ntsc_index ! 5) (ntsc_index ! 6) \<lparr>pts = 3, key = - 1\<rparr>
   \<and> frame_block (ntsc_index ! 7) (ntsc_index ! 8) \<lparr>pts = 1, key = 0\<rparr>
   \<and> frame_block (ntsc_index ! 9) (ntsc_index ! 10) \<lparr>pts = 2, key = 2\<rparr>
   \<and> [0, 33, 66, 100] =
       map (\<lambda>f. \<lfloor>real_of_int (pts f * 1000 * 1001) / real_of_int 30000\<rfloor>)
           (sort_key pts [\<lparr>pts = 0, key = 1\<rparr>, \<lparr>pts = 3, key = - 1\<rparr>,
                          \<lparr>pts = 1, key = 0\<rparr>, \<lparr>pts = 2, key = 2\<rparr>])"
proof -
  from info_from_lwindex_timecodes [OF ntsc_info] obtain s e frames num den where
    h: "first_index ntsc_index ''</StreamInfo>'' s"
       "first_index ntsc_index ''</LibavReaderIndex>'' e"
       "streaminfo_timebase (ntsc_index ! (if s = 0 then length ntsc_index - 1 else s - 1)) num den"
       "length frames = (e - s) div 2"
       "\<forall>j < length frames.
          frame_block (ntsc_index ! (Suc s + 2 * j)) (ntsc_index ! (Suc s + 2 * j + 1)) (frames ! j)"
       "timecodes \<lparr>timecodes = [0, 33, 66, 100], keyframes = [0, 2, 3]\<rparr> =
          map (\<lambda>f. \<lfloor>real_of_int (pts f * 1000 * num) / real_of_int den\<rfloor>) (sort_key pts frames)"
    by blast
  note u = ntsc_frames_unique [OF h(1,2,4,5)]
  from h(3) u(1) have "streaminfo_timebase (ntsc_index ! 1) num den" by simp
  from streaminfo_timebase_unique [OF this ntsc_timebase] have nd: "num = 1001" "den = 30000"
    by simp_all
  from h(6) have "[0, 33, 66, 100] =
       map (\<lambda>f. \<lfloor>real_of_int (pts f * 1000 * 1001) / real_of_int 30000\<rfloor>)
           (sort_key pts [\<lparr>pts = 0, key = 1\<rparr>, \<lparr>pts = 3, key = - 1\<rparr>,
                          \<lparr>pts = 1, key = 0\<rparr>, \<lparr>pts = 2, key = 2\<rparr>])"
    unfolding u(3) nd by (simp only: info.select_convs)
  with ntsc_info ntsc_markers ntsc_timebase ntsc_blocks show ?thesis by blast
qed

text \<open>
  C3. When \<open>info_from_lwindex\<close> returns, \<open>keyframes\<close> lists exactly the zero-based
  positions, in the order sorted by \<open>pts\<close>, of the frames whose key flag is not zero, in
  increasing order; the frames are those of the two-line blocks between the markers, with
  the PTS and Key fields of each block as timestamp and key flag.
\<close>

theorem info_from_lwindex_keyframes:
  assumes "info_from_lwindex index = Inr r"
  shows "\<exists>s e frames.
           first_index index ''</StreamInfo>'' s
         \<and> first_index index ''</LibavReaderIndex>'' e
         \<and> length frames = (e - s) div 2
         \<and> (\<forall>j < length frames.
               frame_block (index ! (Suc s + 2 * j)) (index ! (Suc s + 2 * j + 1)) (frames ! j))
         \<and> keyframes r =
             filter (\<lambda>i. key (sort_key pts frames ! i) \<noteq> 0) [0..<length frames]
         \<and> sorted_wrt (<) (keyframes r)"
proof -
  from info_from_lwindex_reads [OF assms] obtain s e frames where
    h: "first_index index ''</StreamInfo>'' s" "first_index index ''</LibavReaderIndex>'' e"
       "length frames = (e - s) div 2"
       "\<forall>j < length frames.
          frame_block (index ! (Suc s + 2 * j)) (index ! (Suc s + 2 * j + 1)) (frames ! j)"
       "keyframes r = map fst (filter (\<lambda>(i, f). key f \<noteq> 0) (enumerate 0 (sort_key pts frames)))"
    by blast
  have k: "keyframes r = filter (\<lambda>i. key (sort_key pts frames ! i) \<noteq> 0) [0..<length frames]"
    unfolding h(5) by (simp add: positions_enumerate)
  have "sorted_wrt (<) [0..<length frames]"
    by (simp add: sorted_wrt_upt)
  then have "sorted_wrt (<) (keyframes r)"
    unfolding k by (rule sorted_wrt_filter)
  with h(1-4) k show ?thesis by blast
qed

theorem info_from_lwindex_keyframes_witness:
  "info_from_lwindex ntsc_index = Inr \<lparr>timecodes = [0, 33, 66, 100], keyframes = [0, 2, 3]\<rparr>
   \<and> first_index ntsc_index ''</StreamInfo>'' 2
   \<and> first_index ntsc_index ''</LibavReaderIndex>'' 11
   \<and> frame_block (ntsc_index ! 3) (ntsc_index ! 4) \<lparr>pts = 0, key = 1\<rparr>
   \<and> frame_block (ntsc_index ! 5) (ntsc_index ! 6) \<lparr>pts = 3, key = - 1\<rparr>
   \<and> frame_block (ntsc_index ! 7) (ntsc_index ! 8) \<lparr>pts = 1, key = 0\<rparr>
   \<and> frame_block (ntsc_index ! 9) (ntsc_index ! 10) \<lparr>pts = 2, key = 2\<rparr>
   \<and> [0, 2, 3] =
       filter (\<lambda>i. key (sort_key pts [\<lparr>pts = 0, key = 1\<rparr>, \<lparr>pts = 3, key = - 1\<rparr>,
                                       \<lparr>pts = 1, key = 0\<rparr>, \<lparr>pts = 2, key = 2\<rparr>] ! i) \<noteq> 0)
              [0..<4]"
proof -
  from info_from_lwindex_keyframes [OF ntsc_info] obtain s e frames where
    h: "first_index ntsc_index ''</StreamInfo>'' s"
       "first_index ntsc_index ''</LibavReaderIndex>'' e"
       "length frames = (e - s) div 2"
       "\<forall>j < length frames.
          frame_block (ntsc_index ! (Suc s + 2 * j)) (ntsc_index ! (Suc s + 2 * j + 1)) (frames ! j)"
       "keyframes \<lparr>timecodes = [0, 33, 66, 100], keyframes = [0, 2, 3]\<rparr> =
          filter (\<lambda>i. key (sort_key pts frames ! i) \<noteq> 0) [0..<length frames]"
    by blast
  note u = ntsc_frames_unique [OF h(1-4)]
  from h(5) have "[0, 2, 3] =
       filter (\<lambda>i. key (sort_key pts [\<lparr>pts = 0, key = 1\<rparr>, \<lparr>pts = 3, key = - 1\<rparr>,
                                       \<lparr>pts = 1, key = 0\<rparr>, \<lparr>pts = 2, key = 2\<rparr>] ! i) \<noteq> 0)
              [0..<length [\<lparr>pts = 0, key = 1\<rparr>, \<lparr>pts = 3, key = - 1\<rparr>,
                           \<lparr>pts = 1, key = (0::int)\<rparr>, \<lparr>pts = 2, key = 2\<rparr>]]"
    unfolding u(3) by (simp only: info.select_convs)
  then have "[0, 2, 3] =
       filter (\<lambda>i. key (sort_key pts [\<lparr>pts = 0, key = 1\<rparr>, \<lparr>pts = 3, key = - 1\<rparr>,
                                       \<lparr>pts = 1, key = 0\<rparr>, \<lparr>pts = 2, key = 2\<rparr>] ! i) \<noteq> 0)
              [0..<4]"
    by (simp add: eval_nat_numeral)
  with ntsc_info ntsc_markers ntsc_blocks show ?thesis by blast
qed

text \<open>
  C6. When \<open>info_from_lwindex\<close> returns, \<open>timecodes\<close> is as long as the list of frame
  records, every element of \<open>keyframes\<close> is a position in \<open>timecodes\<close>, and
  \<open>timecodes\<close> is non-decreasing. The last part rests on the time base being
  non-negative: its pattern admits no sign.
\<close>

theorem info_from_lwindex_invariants:
  assumes "info_from_lwindex index = Inr r"
  shows "\<exists>indexstart indexend document_frames.
           markers index = Inr (indexstart, indexend)
         \<and> read_frames index indexstart indexend = Inr document_frames
         \<and> length (timecodes r) = length document_frames
         \<and> (\<forall>k \<in> set (keyframes r). 0 \<le> k \<and> k < length document_frames)
         \<and> sorted (timecodes r)"
proof -
  from info_from_lwindex_Inr [OF assms] obtain s e fs n d where
    h: "markers index = Inr (s, e)" "read_frames index s e = Inr fs"
       "read_timebase index s = Inr (n, d)"
       "timecodes r = map (\<lambda>f. (pts f * 1000 * n) div d) (sort_key pts fs)"
       "keyframes r = map fst (filter (\<lambda>(i, f). key f \<noteq> 0) (enumerate 0 (sort_key pts fs)))"
    by blast
  from read_timebase_nonneg [OF h(3)] have "sorted (timecodes r)"
    unfolding h(4) by (simp add: timecodes_sorted)
  moreover have "length (timecodes r) = length fs"
    unfolding h(4) by simp
  moreover have "\<forall>k \<in> set (keyframes r). 0 \<le> k \<and> k < length fs"
    unfolding h(5) by (simp add: positions_enumerate)
  ultimately show ?thesis using h(1,2) by blast
qed

theorem info_from_lwindex_invariants_witness:
  "info_from_lwindex example_index = Inr \<lparr>timecodes = [0, 20, 40], keyframes = [0]\<rparr>
   \<and> length [0, 20, 40 :: int] = 3 \<and> list_all (\<lambda>k. k < 3) [0 :: nat] \<and> sorted [0, 20, 40 :: int]"
proof -
  from info_from_lwindex_invariants [OF example_info] obtain s e fs where
    h: "markers example_index = Inr (s, e)" "read_frames example_index s e = Inr fs"
       "length (timecodes \<lparr>timecodes = [0, 20, 40], keyframes = [0]\<rparr>) = length fs"
       "\<forall>k \<in> set (keyframes \<lparr>timecodes = [0, 20, 40], keyframes = [0]\<rparr>). 0 \<le> k \<and> k < length fs"
       "sorted (timecodes \<lparr>timecodes = [0, 20, 40], keyframes = [0]\<rparr>)"
    by blast
  from h(3) have l: "length fs = 3" by simp
  from h(3) have "length [0, 20, 40 :: int] = 3" by simp
  moreover from h(4) l have "list_all (\<lambda>k. k < 3) [0 :: nat]" by simp
  moreover from h(5) have "sorted [0, 20, 40 :: int]" by simp
  ultimately show ?thesis using example_info by blast
qed

subsection \<open>Stability of the sort\<close>

lemma tie_markers: "markers tie_index = Inr (2, 10)"
  unfolding tie_index_def by code_simp

lemma tie_frames:
  "read_frames tie_index 2 10 =
     Inr [\<lparr>pts = 40, key = 0\<rparr>, \<lparr>pts = 0, key = 0\<rparr>, \<lparr>pts = 0, key = 1\<rparr>, \<lparr>pts = 40, key = 1\<rparr>]"
  unfolding tie_index_def by code_simp

lemma tie_info:
  "info_from_lwindex tie_index = Inr \<lparr>timecodes = [0, 0, 40, 40], keyframes = [1, 3]\<rparr>"
  unfolding tie_index_def by code_simp

text \<open>
  C5. The sort is stable: for every timestamp, the frames with that timestamp appear in
  the sorted list in the same order as in the file, and both output sequences are computed
  from the sorted list.
\<close>

theorem info_from_lwindex_stable:
  assumes "info_from_lwindex index = Inr r"
  shows "\<exists>indexstart indexend document_frames frames num den.
           markers index = Inr (indexstart, indexend)
         \<and> read_frames index indexstart indexend = Inr document_frames
         \<and> read_timebase index indexstart = Inr (num, den)
         \<and> sorted (map pts frames)
         \<and> (\<forall>t. filter (\<lambda>f. pts f = t) frames = filter (\<lambda>f. pts f = t) document_frames)
         \<and> timecodes r = map (\<lambda>f. (pts f * 1000 * num) div den) frames
         \<and> keyframes r = filter (\<lambda>i. key (frames ! i) \<noteq> 0) [0..<length frames]"
proof -
  from info_from_lwindex_Inr [OF assms] obtain s e fs n d where
    h: "markers index = Inr (s, e)" "read_frames index s e = Inr fs"
       "read_timebase index s = Inr (n, d)"
       "timecodes r = map (\<lambda>f. (pts f * 1000 * n) div d) (sort_key pts fs)"
       "keyframes r = map fst (filter (\<lambda>(i, f). key f \<noteq> 0) (enumerate 0 (sort_key pts fs)))"
    by blast
  have "sorted (map pts (sort_key pts fs))" by simp
  moreover have "\<forall>t. filter (\<lambda>f. pts f = t) (sort_key pts fs) = filter (\<lambda>f. pts f = t) fs"
    by (simp add: sort_key_stable)
  moreover have "keyframes r =
      filter (\<lambda>i. key (sort_key pts fs ! i) \<noteq> 0) [0..<length (sort_key pts fs)]"
    unfolding h(5) by (rule positions_enumerate)
  ultimately show ?thesis using h(1-4) by blast
qed

theorem info_from_lwindex_stable_witness:
  "info_from_lwindex tie_index = Inr \<lparr>timecodes = [0, 0, 40, 40], keyframes = [1, 3]\<rparr>
   \<and> (\<exists>frames. filter (\<lambda>f. pts f = 0) frames = [\<lparr>pts = 0, key = 0\<rparr>, \<lparr>pts = 0, key = 1\<rparr>]
         \<and> filter (\<lambda>f. pts f = 40) frames = [\<lparr>pts = 40, key = 0\<rparr>, \<lparr>pts = 40, key = 1\<rparr>]
         \<and> [1, 3] = filter (\<lambda>i. key (frames ! i) \<noteq> 0) [0..<length frames])"
proof -
  from info_from_lwindex_stable [OF tie_info] obtain s e fs frames where
    h: "markers tie_index = Inr (s, e)" "read_frames tie_index s e = Inr fs"
       "\<forall>t. filter (\<lambda>f. pts f = t) frames = filter (\<lambda>f. pts f = t) fs"
       "keyframes \<lparr>timecodes = [0, 0, 40, 40], keyframes = [1, 3]\<rparr> =
          filter (\<lambda>i. key (frames ! i) \<noteq> 0) [0..<length frames]"
    by blast
  from h(1) have se: "s = 2" "e = 10" by (simp_all add: tie_markers)
  from h(2) se have fs: "fs = [\<lparr>pts = 40, key = 0\<rparr>, \<lparr>pts = 0, key = 0\<rparr>, \<lparr>pts = 0, key = 1\<rparr>, \<lparr>pts = 40, key = 1\<rparr>]"
    by (simp add: tie_frames)
  from h(3) have "filter (\<lambda>f. pts f = 0) frames = filter (\<lambda>f. pts f = 0) fs" by blast
  then have a: "filter (\<lambda>f. pts f = 0) frames = [\<lparr>pts = 0, key = 0\<rparr>, \<lparr>pts = 0, key = 1\<rparr>]"
    unfolding fs by simp
  from h(3) have "filter (\<lambda>f. pts f = 40) frames = filter (\<lambda>f. pts f = 40) fs" by blast
  then have b: "filter (\<lambda>f. pts f = 40) frames = [\<lparr>pts = 40, key = 0\<rparr>, \<lparr>pts = 40, key = 1\<rparr>]"
    unfolding fs by simp
  from h(4) have c: "[1, 3] = filter (\<lambda>i. key (frames ! i) \<noteq> 0) [0..<length frames]" by simp
  from a b c tie_info show ?thesis by blast
qed

subsection \<open>Failures\<close>

lemma py_int_over_limit:
  "py_int (replicate 4301 (CHR ''1'')) = Inl ValueError"
  "py_int (CHR ''-'' # replicate 4301 (CHR ''0'')) = Inl ValueError"
  "\<exists>n. py_int (replicate 4300 (CHR ''1'')) = Inr n"
  by (simp_all add: py_int_def within_limit_def max_str_digits_def digit_def int_literal_def
        list_all_iff)

lemma info_from_lwindex_steps:
  assumes "markers index = Inr (indexstart, indexend)"
    and "read_frames index indexstart indexend = Inr fs"
    and "read_timebase index indexstart = Inr (n, d)"
  shows "info_from_lwindex index =
     (if d = 0 \<and> fs \<noteq> [] then Inl ZeroDivisionError
      else Inr \<lparr>timecodes = map (\<lambda>f. (pts f * 1000 * n) div d) (sort_key pts fs),
                keyframes = map fst (filter (\<lambda>(i, f). key f \<noteq> 0)
                              (enumerate 0 (sort_key pts fs)))\<rparr>)"
proof -
  have "sort_key pts fs = [] \<longleftrightarrow> fs = []"
    by (metis length_sort length_0_conv)
  with assms show ?thesis
    by (simp add: info_from_lwindex_def Let_def)
qed

lemma first_index_mem: "first_index xs v i \<Longrightarrow> v \<in> set xs"
  by (auto simp: first_index_def)

lemma list_index_complete:
  assumes "first_index xs v i"
  shows "list_index xs v = Inr i"
proof -
  from list_index_mem [OF first_index_mem [OF assms]] obtain j where j: "list_index xs v = Inr j" ..
  from first_index_unique [OF list_index_first [OF j] assms] j show ?thesis by simp
qed

lemma markers_complete:
  assumes "first_index index ''</StreamInfo>'' s" "first_index index ''</LibavReaderIndex>'' e"
  shows "markers index = Inr (Suc s, e)"
  using list_index_complete [OF assms(1)] list_index_complete [OF assms(2)]
  by (simp add: markers_def)

lemma frame_fields_parse:
  assumes "frame_fields line0 line1 p k"
  shows "\<exists>m1 m2. lwindex_re1 line0 = Some m1 \<and> lwindex_re2 line1 = Some m2
           \<and> g_PTS m1 = p \<and> g_Key m2 = k"
proof -
  from assms obtain idx pos dts edi rest0 pic poc rep fld rest1 where
    h: "line0 = ''Index='' @ idx @ '',POS='' @ pos @ '',PTS='' @ p @ '',DTS='' @ dts
                  @ '',EDI='' @ edi @ rest0"
       "is_number idx" "is_number pos" "is_number p" "is_number dts" "is_number edi"
       "line1 = ''Key='' @ k @ '',Pic='' @ pic @ '',POC='' @ poc @ '',Repeat='' @ rep
                  @ '',Field='' @ fld @ rest1"
       "is_number k" "is_number pic" "is_number poc" "is_number rep" "is_number fld"
    unfolding frame_fields_def by blast
  from lwindex_re1_complete [OF h(2-6), of rest0] h(1) obtain m1 where
    "lwindex_re1 line0 = Some m1" "g_PTS m1 = p" by auto
  moreover from lwindex_re2_complete [OF h(8-12), of rest1] h(7) obtain m2 where
    "lwindex_re2 line1 = Some m2" "g_Key m2 = k" by auto
  ultimately show ?thesis by auto
qed

lemma frame_fields_format:
  assumes "lwindex_re1 line0 = Some m1" "lwindex_re2 line1 = Some m2"
  shows "frame_fields line0 line1 (g_PTS m1) (g_Key m2)"
  using lwindex_re1_format [OF assms(1)] lwindex_re2_format [OF assms(2)]
  unfolding frame_fields_def by (elim exE conjE) blast

lemma valid_block_iff:
  "valid_block (index ! i) (index ! Suc i) \<longleftrightarrow> block_matches index i \<and> block_converts index i"
proof
  assume "valid_block (index ! i) (index ! Suc i)"
  then obtain p k where pk: "frame_fields (index ! i) (index ! Suc i) p k"
      "within_limit p" "within_limit k"
    unfolding valid_block_def by blast
  from frame_fields_parse [OF pk(1)] pk(2,3)
  show "block_matches index i \<and> block_converts index i"
    by (auto simp: block_matches_def block_converts_def)
next
  assume a: "block_matches index i \<and> block_converts index i"
  then obtain m1 m2 where m: "lwindex_re1 (index ! i) = Some m1"
      "lwindex_re2 (index ! Suc i) = Some m2"
    by (auto simp: block_matches_def)
  with a have "within_limit (g_PTS m1)" "within_limit (g_Key m2)"
    by (simp_all add: block_converts_def)
  with frame_fields_format [OF m] show "valid_block (index ! i) (index ! Suc i)"
    unfolding valid_block_def by blast
qed

lemma streaminfo_fields_parse:
  assumes "streaminfo_fields line a b"
  shows "\<exists>m. streaminfo_re line = Some m \<and> g_TimeBase m = a @ ''/'' @ b
           \<and> digits a \<and> digits b"
proof -
  from assms obtain codec w h fmt cs rest where
    h: "line = ''Codec='' @ codec @ '',TimeBase='' @ a @ ''/'' @ b @ '',Width='' @ w
                 @ '',Height='' @ h @ '',Format='' @ fmt @ '',ColorSpace='' @ cs @ rest"
       "digits codec" "digits a" "digits b" "digits w" "digits h"
       "fmt \<noteq> []" "list_all alnum fmt" "digits cs"
    unfolding streaminfo_fields_def by blast
  from streaminfo_re_complete [OF h(2-9), of rest] h(1) obtain m where
    "streaminfo_re line = Some m" "g_TimeBase m = a @ ''/'' @ b" by auto
  with h(3,4) show ?thesis by blast
qed

lemma streaminfo_fields_format:
  assumes "streaminfo_re line = Some m" "g_TimeBase m = a @ ''/'' @ b" "digits a" "digits b"
  shows "streaminfo_fields line a b"
proof -
  from streaminfo_re_format [OF assms(1)] obtain rest where
    f: "line = ''Codec='' @ g_Codec m @ '',TimeBase='' @ g_TimeBase m @ '',Width=''
                    @ g_Width m @ '',Height='' @ g_Height m @ '',Format='' @ g_Format m
                    @ '',ColorSpace='' @ g_ColorSpace m @ rest"
       "digits (g_Codec m)" "digits (g_Width m)" "digits (g_Height m)"
       "g_Format m \<noteq> []" "list_all alnum (g_Format m)" "digits (g_ColorSpace m)"
    by blast
  have "line = ''Codec='' @ g_Codec m @ '',TimeBase='' @ a @ ''/'' @ b @ '',Width=''
                    @ g_Width m @ '',Height='' @ g_Height m @ '',Format='' @ g_Format m
                    @ '',ColorSpace='' @ g_ColorSpace m @ rest"
    using f(1) unfolding assms(2) by simp
  with f(2-7) assms(3,4) show ?thesis
    unfolding streaminfo_fields_def by blast
qed

lemma timebase_wellformed_iff:
  "timebase_wellformed tb \<longleftrightarrow>
     (\<exists>a b. tb = a @ ''/'' @ b \<and> digits a \<and> within_limit a \<and> digits b \<and> within_limit b)"
proof
  assume "timebase_wellformed tb"
  then obtain a b where ab: "split_on (CHR ''/'') tb = [a, b]"
      "digits a" "within_limit a" "digits b" "within_limit b"
    by (auto simp: timebase_wellformed_def digits_def split: list.splits)
  from split_on_two [OF ab(1)] have "tb = a @ ''/'' @ b" by simp
  with ab(2-5) show "\<exists>a b. tb = a @ ''/'' @ b \<and> digits a \<and> within_limit a \<and> digits b \<and> within_limit b"
    by blast
next
  assume "\<exists>a b. tb = a @ ''/'' @ b \<and> digits a \<and> within_limit a \<and> digits b \<and> within_limit b"
  then obtain a b where ab: "tb = a @ ''/'' @ b" "digits a" "within_limit a"
      "digits b" "within_limit b" by blast
  from split_on_join [OF digits_no_slash [OF ab(2)] digits_no_slash [OF ab(4)]] ab(1)
  have "split_on (CHR ''/'') tb = [a, b]" by simp
  with ab(2-5) show "timebase_wellformed tb"
    by (simp add: timebase_wellformed_def digits_def)
qed

lemma valid_streaminfo_iff:
  "valid_streaminfo line \<longleftrightarrow>
     (\<exists>m. streaminfo_re line = Some m \<and> timebase_wellformed (g_TimeBase m))"
proof
  assume "valid_streaminfo line"
  then obtain a b where ab: "streaminfo_fields line a b" "within_limit a" "within_limit b"
    unfolding valid_streaminfo_def by blast
  from streaminfo_fields_parse [OF ab(1)] obtain m where
    m: "streaminfo_re line = Some m" "g_TimeBase m = a @ ''/'' @ b" "digits a" "digits b"
    by blast
  with ab(2,3) have "timebase_wellformed (g_TimeBase m)"
    unfolding timebase_wellformed_iff by blast
  with m(1) show "\<exists>m. streaminfo_re line = Some m \<and> timebase_wellformed (g_TimeBase m)"
    by blast
next
  assume "\<exists>m. streaminfo_re line = Some m \<and> timebase_wellformed (g_TimeBase m)"
  then obtain m a b where m: "streaminfo_re line = Some m" "g_TimeBase m = a @ ''/'' @ b"
      "digits a" "within_limit a" "digits b" "within_limit b"
    unfolding timebase_wellformed_iff by blast
  from streaminfo_fields_format [OF m(1,2,3,5)] m(4,6) show "valid_streaminfo line"
    unfolding valid_streaminfo_def by blast
qed

lemma range2_blocks:
  "(\<exists>i \<in> set (range2 (Suc s) e). P i) \<longleftrightarrow> (\<exists>j < (e - s) div 2. P (Suc s + 2 * j))"
  by (auto simp: range2_steps)

lemma read_frames_format:
  assumes "markers index = Inr (Suc s, e)"
  shows "(\<exists>fs. read_frames index (Suc s) e = Inr fs \<and> length fs = (e - s) div 2
            \<and> (\<forall>j < (e - s) div 2.
                  valid_block (index ! (Suc s + 2 * j)) (index ! (Suc s + 2 * j + 1))))
       \<or> (read_frames index (Suc s) e = Inl ValueError
            \<and> (\<exists>j < (e - s) div 2.
                  \<not> valid_block (index ! (Suc s + 2 * j)) (index ! (Suc s + 2 * j + 1))))"
proof -
  have v: "\<And>i. (\<not> block_matches index i \<or> \<not> block_converts index i)
             \<longleftrightarrow> \<not> valid_block (index ! i) (index ! (i + 1))"
    by (simp add: valid_block_iff)
  from read_frames_cases [OF assms] show ?thesis
  proof
    assume "\<exists>fs. read_frames index (Suc s) e = Inr fs
            \<and> (\<forall>i \<in> set (range2 (Suc s) e). block_matches index i \<and> block_converts index i)"
    then obtain fs where fs: "read_frames index (Suc s) e = Inr fs"
        "\<not> (\<exists>i \<in> set (range2 (Suc s) e). \<not> block_matches index i \<or> \<not> block_converts index i)"
      by blast
    from fs(2) have "\<not> (\<exists>j < (e - s) div 2.
        \<not> valid_block (index ! (Suc s + 2 * j)) (index ! (Suc s + 2 * j + 1)))"
      unfolding v range2_blocks by simp
    moreover from read_frames_length(2) [OF fs(1)] have "length fs = (e - s) div 2" by simp
    ultimately show ?thesis using fs(1) by blast
  next
    assume a: "read_frames index (Suc s) e = Inl ValueError
            \<and> (\<exists>i \<in> set (range2 (Suc s) e). \<not> block_matches index i \<or> \<not> block_converts index i)"
    then have "\<exists>j < (e - s) div 2.
        \<not> valid_block (index ! (Suc s + 2 * j)) (index ! (Suc s + 2 * j + 1))"
      unfolding v range2_blocks by simp
    with a show ?thesis by blast
  qed
qed

lemma read_timebase_valid:
  assumes "s < length index"
  shows "(read_timebase index (Suc s) = Inl ValueError
            \<and> \<not> valid_streaminfo (index ! (if s = 0 then length index - 1 else s - 1)))
       \<or> (\<exists>n d. read_timebase index (Suc s) = Inr (n, d)
            \<and> valid_streaminfo (index ! (if s = 0 then length index - 1 else s - 1))
            \<and> streaminfo_timebase (index ! (if s = 0 then length index - 1 else s - 1)) n d)"
proof -
  let ?line = "index ! (if s = 0 then length index - 1 else s - 1)"
  from read_timebase_cases [OF assms] show ?thesis
  proof
    assume a: "read_timebase index (Suc s) = Inl ValueError
            \<and> (streaminfo_re ?line = None
               \<or> (\<exists>m. streaminfo_re ?line = Some m \<and> \<not> timebase_wellformed (g_TimeBase m)))"
    then have "\<not> valid_streaminfo ?line"
      unfolding valid_streaminfo_iff by auto
    with a show ?thesis by blast
  next
    assume "\<exists>m a b. read_timebase index (Suc s) = Inr (decimal a, decimal b)
            \<and> streaminfo_re ?line = Some m
            \<and> timebase_wellformed (g_TimeBase m)
            \<and> split_on (CHR ''/'') (g_TimeBase m) = [a, b]
            \<and> g_TimeBase m = a @ ''/'' @ b \<and> digits a \<and> digits b"
    then obtain m a b where
      t: "read_timebase index (Suc s) = Inr (decimal a, decimal b)"
         "streaminfo_re ?line = Some m" "timebase_wellformed (g_TimeBase m)"
      by blast
    from t(2,3) have "valid_streaminfo ?line"
      unfolding valid_streaminfo_iff by blast
    with t(1) read_timebase_format [OF assms t(1)] show ?thesis by blast
  qed
qed

text \<open>
  C4, amended. \<open>info_from_lwindex\<close> raises ValueError exactly when a marker line is
  absent, or some two-line block between the markers is not a valid frame block, because
  it does not have the format of the frame patterns or has a PTS or Key field beyond the
  limit of the integer conversion, or the line before the StreamInfo marker is not a valid
  StreamInfo line, because it does not have the format of the StreamInfo pattern, in any
  of its fields, or its time base is not two runs of digits within that limit around a
  slash. The only other exception is ZeroDivisionError, raised exactly when none of these
  holds, the denominator of the time base is zero and there is at least one frame block.
\<close>

theorem info_from_lwindex_ValueError_iff:
  "(info_from_lwindex index = Inl ValueError \<longleftrightarrow>
      ''</StreamInfo>'' \<notin> set index \<or> ''</LibavReaderIndex>'' \<notin> set index
      \<or> (\<exists>s e. first_index index ''</StreamInfo>'' s
               \<and> first_index index ''</LibavReaderIndex>'' e
               \<and> ((\<exists>j < (e - s) div 2.
                      \<not> valid_block (index ! (Suc s + 2 * j)) (index ! (Suc s + 2 * j + 1)))
                  \<or> \<not> valid_streaminfo (index ! (if s = 0 then length index - 1 else s - 1)))))
   \<and> (info_from_lwindex index = Inl ZeroDivisionError \<longleftrightarrow>
        (\<exists>s e num. first_index index ''</StreamInfo>'' s
               \<and> first_index index ''</LibavReaderIndex>'' e
               \<and> (\<forall>j < (e - s) div 2.
                      valid_block (index ! (Suc s + 2 * j)) (index ! (Suc s + 2 * j + 1)))
               \<and> valid_streaminfo (index ! (if s = 0 then length index - 1 else s - 1))
               \<and> streaminfo_timebase (index ! (if s = 0 then length index - 1 else s - 1)) num 0
               \<and> 0 < (e - s) div 2))
   \<and> (\<forall>err. info_from_lwindex index = Inl err \<longrightarrow> err = ValueError \<or> err = ZeroDivisionError)"
proof (cases "markers index")
  case (Inl err)
  then have absent: "''</StreamInfo>'' \<notin> set index \<or> ''</LibavReaderIndex>'' \<notin> set index"
    and err: "err = ValueError"
    by (simp_all add: markers_Inl)
  from Inl err have i: "info_from_lwindex index = Inl ValueError"
    by (simp add: info_from_lwindex_def)
  have "\<not> (\<exists>s e. first_index index ''</StreamInfo>'' s \<and> first_index index ''</LibavReaderIndex>'' e)"
    using absent by (auto dest: first_index_mem)
  with i absent show ?thesis by auto
next
  case (Inr se)
  obtain indexstart e where se: "markers index = Inr (indexstart, e)" using Inr by (cases se) simp
  have present: "''</StreamInfo>'' \<in> set index \<and> ''</LibavReaderIndex>'' \<in> set index"
    using markers_Inl [of index ValueError] se by auto
  from markers_first [OF se] obtain s where
    s: "indexstart = Suc s" "first_index index ''</StreamInfo>'' s"
       "first_index index ''</LibavReaderIndex>'' e" by blast
  from s(2) have sl: "s < length index" by (simp add: first_index_def)
  let ?line = "index ! (if s = 0 then length index - 1 else s - 1)"
  let ?invalid = "\<exists>j < (e - s) div 2.
      \<not> valid_block (index ! (Suc s + 2 * j)) (index ! (Suc s + 2 * j + 1))"
  let ?bad = "?invalid \<or> \<not> valid_streaminfo ?line"
  let ?zero = "\<not> ?invalid \<and> valid_streaminfo ?line
      \<and> (\<exists>num. streaminfo_timebase ?line num 0) \<and> 0 < (e - s) div 2"
  have u: "\<And>s' e'. first_index index ''</StreamInfo>'' s'
              \<and> first_index index ''</LibavReaderIndex>'' e' \<longleftrightarrow> s' = s \<and> e' = e"
  proof -
    fix s' e'
    show "first_index index ''</StreamInfo>'' s'
              \<and> first_index index ''</LibavReaderIndex>'' e' \<longleftrightarrow> s' = s \<and> e' = e"
    proof
      assume a: "first_index index ''</StreamInfo>'' s'
              \<and> first_index index ''</LibavReaderIndex>'' e'"
      from first_index_unique [OF conjunct1 [OF a] s(2)]
        first_index_unique [OF conjunct2 [OF a] s(3)]
      show "s' = s \<and> e' = e" by simp
    next
      assume "s' = s \<and> e' = e"
      with s(2,3) show "first_index index ''</StreamInfo>'' s'
              \<and> first_index index ''</LibavReaderIndex>'' e'" by simp
    qed
  qed
  have e1: "(\<exists>s e. first_index index ''</StreamInfo>'' s
               \<and> first_index index ''</LibavReaderIndex>'' e
               \<and> ((\<exists>j < (e - s) div 2.
                      \<not> valid_block (index ! (Suc s + 2 * j)) (index ! (Suc s + 2 * j + 1)))
                  \<or> \<not> valid_streaminfo (index ! (if s = 0 then length index - 1 else s - 1))))
        \<longleftrightarrow> ?bad"
    using u by (metis (no_types, lifting))
  have e2: "(\<exists>s e num. first_index index ''</StreamInfo>'' s
               \<and> first_index index ''</LibavReaderIndex>'' e
               \<and> (\<forall>j < (e - s) div 2.
                      valid_block (index ! (Suc s + 2 * j)) (index ! (Suc s + 2 * j + 1)))
               \<and> valid_streaminfo (index ! (if s = 0 then length index - 1 else s - 1))
               \<and> streaminfo_timebase (index ! (if s = 0 then length index - 1 else s - 1)) num 0
               \<and> 0 < (e - s) div 2)
        \<longleftrightarrow> ?zero"
    using u by (metis (no_types, lifting))
  have main: "(info_from_lwindex index = Inl ValueError \<longleftrightarrow> ?bad)
      \<and> (info_from_lwindex index = Inl ZeroDivisionError \<longleftrightarrow> ?zero)
      \<and> (\<forall>err. info_from_lwindex index = Inl err \<longrightarrow> err = ValueError \<or> err = ZeroDivisionError)"
    using read_frames_format [OF se [unfolded s(1)]]
  proof
    assume a: "read_frames index (Suc s) e = Inl ValueError \<and> ?invalid"
    then have "info_from_lwindex index = Inl ValueError"
      using se s(1) by (simp add: info_from_lwindex_def)
    with a show ?thesis by auto
  next
    assume "\<exists>fs. read_frames index (Suc s) e = Inr fs \<and> length fs = (e - s) div 2
            \<and> (\<forall>j < (e - s) div 2.
                  valid_block (index ! (Suc s + 2 * j)) (index ! (Suc s + 2 * j + 1)))"
    then obtain fs where fs: "read_frames index indexstart e = Inr fs"
        "length fs = (e - s) div 2" "\<not> ?invalid"
      unfolding s(1) by blast
    have "fs \<noteq> [] \<longleftrightarrow> 0 < length fs" by simp
    then have empty: "fs \<noteq> [] \<longleftrightarrow> 0 < (e - s) div 2" unfolding fs(2) .
    from read_timebase_valid [OF sl] show ?thesis
    proof
      assume a: "read_timebase index (Suc s) = Inl ValueError \<and> \<not> valid_streaminfo ?line"
      then have "info_from_lwindex index = Inl ValueError"
        using se fs(1) s(1) by (simp add: info_from_lwindex_def)
      with a show ?thesis by auto
    next
      assume "\<exists>n d. read_timebase index (Suc s) = Inr (n, d) \<and> valid_streaminfo ?line
            \<and> streaminfo_timebase ?line n d"
      then obtain n d where
        t: "read_timebase index indexstart = Inr (n, d)" "valid_streaminfo ?line"
           "streaminfo_timebase ?line n d"
        unfolding s(1) by blast
      from t(2) fs(3) have nb: "\<not> ?bad" by simp
      have "(\<exists>num. streaminfo_timebase ?line num 0) \<longleftrightarrow> d = 0"
        using t(3) streaminfo_timebase_unique by blast
      with t(2) fs(3) have z: "?zero \<longleftrightarrow> d = 0 \<and> 0 < (e - s) div 2" by simp
      show ?thesis
      proof (cases "d = 0 \<and> fs \<noteq> []")
        case True
        with info_from_lwindex_steps [OF se fs(1) t(1)]
        have "info_from_lwindex index = Inl ZeroDivisionError" by simp
        with True nb z empty show ?thesis by auto
      next
        case False
        with info_from_lwindex_steps [OF se fs(1) t(1)]
        have "\<exists>r. info_from_lwindex index = Inr r" by auto
        with False nb z empty show ?thesis by auto
      qed
    qed
  qed
  from main present show ?thesis unfolding e1 e2 by simp
qed

lemma zero_den_info:
  "info_from_lwindex zero_den_index = Inl ZeroDivisionError"
  "info_from_lwindex zero_den_empty_index = Inr \<lparr>timecodes = [], keyframes = []\<rparr>"
  unfolding zero_den_index_def zero_den_empty_index_def by code_simp+

theorem info_from_lwindex_ValueError_iff_witness:
  "info_from_lwindex truncated_index = Inl ValueError
   \<and> first_index truncated_index ''</StreamInfo>'' 1
   \<and> first_index truncated_index ''</LibavReaderIndex>'' 3
   \<and> \<not> valid_block (truncated_index ! 2) (truncated_index ! 3)
   \<and> info_from_lwindex example_index \<noteq> Inl ValueError
   \<and> info_from_lwindex zero_den_index = Inl ZeroDivisionError
   \<and> info_from_lwindex zero_den_empty_index = Inr \<lparr>timecodes = [], keyframes = []\<rparr>"
proof -
  have m: "first_index truncated_index ''</StreamInfo>'' 1"
    "first_index truncated_index ''</LibavReaderIndex>'' 3"
    unfolding truncated_index_def by code_simp+
  have "\<not> block_matches truncated_index 2"
    unfolding truncated_index_def by code_simp
  then have b: "\<not> valid_block (truncated_index ! 2) (truncated_index ! 3)"
    using valid_block_iff [of truncated_index 2] by (simp add: eval_nat_numeral)
  have "(0::nat) < (3 - 1) div 2
      \<and> \<not> valid_block (truncated_index ! (Suc 1 + 2 * 0)) (truncated_index ! (Suc 1 + 2 * 0 + 1))"
    using b by (simp add: eval_nat_numeral)
  with m have "\<exists>s e. first_index truncated_index ''</StreamInfo>'' s
               \<and> first_index truncated_index ''</LibavReaderIndex>'' e
               \<and> ((\<exists>j < (e - s) div 2.
                      \<not> valid_block (truncated_index ! (Suc s + 2 * j))
                          (truncated_index ! (Suc s + 2 * j + 1)))
                  \<or> \<not> valid_streaminfo
                        (truncated_index ! (if s = 0 then length truncated_index - 1 else s - 1)))"
    by blast
  with info_from_lwindex_ValueError_iff [of truncated_index]
  have "info_from_lwindex truncated_index = Inl ValueError" by blast
  moreover have "info_from_lwindex example_index \<noteq> Inl ValueError"
    by (simp add: example_info)
  ultimately show ?thesis using m b zero_den_info by simp
qed

text \<open>
  C4 as stated fails: with both markers present, the only frame block valid and the
  time base \<open>1/1000\<close> well formed, a StreamInfo line with a non-numeric codec field is
  rejected with ValueError.
\<close>

theorem info_from_lwindex_bad_codec_counterexample:
  "info_from_lwindex bad_codec_index = Inl ValueError
   \<and> ''</StreamInfo>'' \<in> set bad_codec_index
   \<and> ''</LibavReaderIndex>'' \<in> set bad_codec_index
   \<and> first_index bad_codec_index ''</StreamInfo>'' 1
   \<and> first_index bad_codec_index ''</LibavReaderIndex>'' 4
   \<and> valid_block (bad_codec_index ! 2) (bad_codec_index ! 3)
   \<and> take 33 (bad_codec_index ! 0) = ''Codec=h264,TimeBase=1/1000,Width=''
   \<and> timebase_wellformed ''1/1000''
   \<and> unpack_timebase ''1/1000'' = Inr (1, 1000)"
proof -
  have a: "info_from_lwindex bad_codec_index = Inl ValueError
   \<and> ''</StreamInfo>'' \<in> set bad_codec_index
   \<and> ''</LibavReaderIndex>'' \<in> set bad_codec_index
   \<and> first_index bad_codec_index ''</StreamInfo>'' 1
   \<and> first_index bad_codec_index ''</LibavReaderIndex>'' 4
   \<and> take 33 (bad_codec_index ! 0) = ''Codec=h264,TimeBase=1/1000,Width=''
   \<and> timebase_wellformed ''1/1000''
   \<and> unpack_timebase ''1/1000'' = Inr (1, 1000)"
    unfolding bad_codec_index_def by code_simp
  have "block_matches bad_codec_index 2 \<and> block_converts bad_codec_index 2"
    unfolding bad_codec_index_def by code_simp
  then have "valid_block (bad_codec_index ! 2) (bad_codec_index ! 3)"
    using valid_block_iff [of bad_codec_index 2] by (simp add: eval_nat_numeral)
  with a show ?thesis by simp
qed

section \<open>Properties of the keyframe generation\<close>

text \<open>
  C7, amended. After a successful resize, \<open>make_keyframes\<close> fails with the error naming
  the plugin selected by \<open>use_scxvid\<close> whenever that plugin is absent, whether or not the
  other detector is installed; when the selected plugin is present and its call succeeds,
  no \<^verbatim>\<open>vs.Error\<close> is raised.
\<close>

theorem make_keyframes_selected_plugin:
  assumes "height clip \<noteq> 0"
    and "resize_Bilinear core clip (resize_h * width clip div height clip) resize_h resize_format
           = Inr resized"
  shows "((if use_scxvid then scxvid core else wwxd core) = None \<longrightarrow>
            make_keyframes core clip use_scxvid resize_h resize_format kwargs
              = Inl (VsError (missing_plugin_message (if use_scxvid then ''scxvid'' else ''wwxd''))))
       \<and> (\<forall>f detected.
            (if use_scxvid then scxvid core else wwxd core) = Some f \<and> f resized kwargs = Inr detected
            \<longrightarrow> (\<forall>msg. make_keyframes core clip use_scxvid resize_h resize_format kwargs
                        \<noteq> Inl (VsError msg)))"
proof (intro conjI impI allI)
  assume "(if use_scxvid then scxvid core else wwxd core) = None"
  with assms show "make_keyframes core clip use_scxvid resize_h resize_format kwargs
      = Inl (VsError (missing_plugin_message (if use_scxvid then ''scxvid'' else ''wwxd'')))"
    by (simp add: make_keyframes_def call_plugin_def split: if_splits)
next
  fix f detected msg
  assume "(if use_scxvid then scxvid core else wwxd core) = Some f \<and> f resized kwargs = Inr detected"
  with assms show "make_keyframes core clip use_scxvid resize_h resize_format kwargs \<noteq> Inl (VsError msg)"
    by (auto simp: make_keyframes_def call_plugin_def split: if_splits sum.splits option.splits
             dest!: traverse_Inl)
qed

theorem make_keyframes_selected_plugin_witness:
  "make_keyframes bare_core sample_clip True 360 0 ()
     = Inl (VsError (missing_plugin_message ''scxvid''))
   \<and> make_keyframes scxvid_only_core sample_clip True 360 0 ()
       \<noteq> Inl (VsError (missing_plugin_message ''scxvid''))"
proof -
  have h: "height sample_clip \<noteq> 0" by (simp add: sample_clip_def)
  have r1: "resize_Bilinear bare_core sample_clip (360 * width sample_clip div height sample_clip) 360 0
      = Inr (sample_clip\<lparr>width := 640, height := 360, format := 0\<rparr>)"
    by (simp add: bare_core_def sample_resize_def sample_clip_def)
  have r2: "resize_Bilinear scxvid_only_core sample_clip (360 * width sample_clip div height sample_clip) 360 0
      = Inr (sample_clip\<lparr>width := 640, height := 360, format := 0\<rparr>)"
    by (simp add: scxvid_only_core_def sample_resize_def sample_clip_def)
  have a: "make_keyframes bare_core sample_clip True 360 0 ()
     = Inl (VsError (missing_plugin_message ''scxvid''))"
    using make_keyframes_selected_plugin [OF h r1, of True "()"]
    by (simp add: bare_core_def)
  have s: "scxvid scxvid_only_core = Some sample_detector
     \<and> sample_detector (sample_clip\<lparr>width := 640, height := 360, format := 0\<rparr>) ()
       = Inr (sample_clip\<lparr>width := 640, height := 360, format := 0,
                frame_props := map (\<lambda>props. props(''_SceneChangePrev'' \<mapsto> 0)) (frame_props sample_clip)\<rparr>)"
    by (simp add: scxvid_only_core_def sample_detector_def)
  have b: "make_keyframes scxvid_only_core sample_clip True 360 0 ()
       \<noteq> Inl (VsError (missing_plugin_message ''scxvid''))"
    using make_keyframes_selected_plugin [OF h r2, of True "()"] s by simp
  from a b show ?thesis by simp
qed

text \<open>
  C7 as stated fails: with Scxvid installed and WWXD absent, the default call
  (\<open>use_scxvid\<close> false) fails with the error naming \<open>wwxd\<close>, although a detector is
  available and the call with \<open>use_scxvid\<close> true succeeds.
\<close>

theorem make_keyframes_other_plugin_counterexample:
  "make_keyframes scxvid_only_core sample_clip False 360 0 ()
     = Inl (VsError (missing_plugin_message ''wwxd''))
   \<and> scxvid scxvid_only_core = Some sample_detector
   \<and> make_keyframes scxvid_only_core sample_clip True 360 0 () = Inr []"
  by (simp add: make_keyframes_def call_plugin_def scxvid_only_core_def sample_clip_def
                sample_resize_def sample_detector_def num_frames_def)

section \<open>Properties of the audio check\<close>

text \<open>
  C8. Without the BestAudioSource plugin, \<open>check_audio\<close> returns \<open>False\<close> and raises
  nothing.
\<close>

theorem check_audio_without_prober:
  assumes "bas core = None"
  shows "check_audio core filename kwargs = Inr False"
  using assms by (simp add: check_audio_def call_plugin_def)

theorem check_audio_without_prober_witness:
  "bas bare_core = None \<and> check_audio bare_core ''video.mkv'' () = Inr False"
proof -
  have h: "bas bare_core = None" by (simp add: bare_core_def)
  from h check_audio_without_prober [OF h] show ?thesis by simp
qed

section \<open>Properties of the keyframe file\<close>

declare digits_of.simps [simp del]

lemma digit_char_digit: "d < 10 \<Longrightarrow> digit (digit_char d) \<and> digit_value (digit_char d) = int d"
proof -
  assume "d < 10"
  then have "d \<in> {0, 1, 2, 3, 4, 5, 6, 7, 8, 9}" by auto
  then show ?thesis
    by (auto simp: digit_char_def digit_def digit_value_def)
qed

lemma decimal_snoc: "decimal (ds @ [c]) = 10 * decimal ds + digit_value c"
  by (simp add: decimal_def)

lemma digits_of_props:
  "digits_of n \<noteq> [] \<and> list_all digit (digits_of n) \<and> decimal (digits_of n) = int n"
proof (induction n rule: digits_of.induct)
  case (1 n)
  show ?case
  proof (cases "n < 10")
    case True
    then have "digits_of n = [digit_char n]" by (subst digits_of.simps) simp
    with digit_char_digit [OF True] show ?thesis by (simp add: decimal_def)
  next
    case False
    then have eq: "digits_of n = digits_of (n div 10) @ [digit_char (n mod 10)]"
      by (subst digits_of.simps) simp
    have "n mod 10 < 10" by simp
    have "10 * int (n div 10) + int (n mod 10) = int n" by presburger
    with digit_char_digit [OF \<open>n mod 10 < 10\<close>] 1 [OF False] show ?thesis
      unfolding eq by (simp add: decimal_snoc)
  qed
qed

lemma int_literal_py_str: "int_literal (py_str n) = Inr n"
proof (cases "n < 0")
  case True
  with digits_of_props [of "nat (- n)"] show ?thesis
    by (simp add: py_str_def int_literal_def)
next
  case False
  from digits_of_props [of "nat n"] have "digits (digits_of (nat n))"
    by (simp add: digits_def)
  from digits_number [OF this] digits_of_props [of "nat n"] False show ?thesis
    by (simp add: py_str_def int_literal_iff)
qed

lemma digit_not_newline: "digit c \<Longrightarrow> c \<noteq> newline"
  by (auto simp: digit_def newline_def)

lemma py_str_no_newline: "newline \<notin> set (py_str n)"
  using digits_of_props [of "nat n"] digits_of_props [of "nat (- n)"]
  by (auto simp: py_str_def list_all_iff newline_def dest: digit_not_newline [unfolded newline_def])

lemma split_on_lines:
  "\<forall>l \<in> set ls. c \<notin> set l \<Longrightarrow> split_on c (concat (map (\<lambda>l. l @ [c]) ls)) = ls @ [[]]"
  by (induction ls) (auto simp: split_on_line)

text \<open>
  C9. The text written by \<open>save_keyframes\<close>, split at the newline characters, is the
  header line, the line \<open>fps 0\<close>, one line per keyframe index in order, and nothing after
  the last newline. Every such line is the decimal text of its index: \<open>int_literal\<close> reads
  it back.
\<close>

theorem save_keyframes_format:
  "\<exists>content. save_keyframes fs filename kfs filename = Some content
     \<and> split_on newline content = [''# keyframe format v1'', ''fps 0''] @ map py_str kfs @ [[]]
     \<and> map int_literal (map py_str kfs) = map Inr kfs"
proof -
  let ?ls = "[''# keyframe format v1'', ''fps 0''] @ map py_str kfs"
  have c: "save_keyframes fs filename kfs filename = Some (concat (map (\<lambda>l. l @ [newline]) ?ls))"
    by (simp add: save_keyframes_def file_write_def comp_def)
  have "\<forall>l \<in> set ?ls. newline \<notin> set l"
    by (auto simp: py_str_no_newline) (simp_all add: newline_def)
  from split_on_lines [OF this]
  have "split_on newline (concat (map (\<lambda>l. l @ [newline]) ?ls)) = ?ls @ [[]]" .
  moreover have "map int_literal (map py_str kfs) = map Inr kfs"
    by (simp add: int_literal_py_str)
  ultimately show ?thesis using c by simp
qed

theorem save_keyframes_format_witness:
  "\<exists>content. save_keyframes Map.empty ''video keyframes.txt'' [0, 12, 240] ''video keyframes.txt''
       = Some content
     \<and> split_on newline content = [''# keyframe format v1'', ''fps 0'', ''0'', ''12'', ''240'', []]"
proof -
  have s: "map py_str [0, 12, 240] = [''0'', ''12'', ''240'']"
    by code_simp
  from save_keyframes_format [of Map.empty "''video keyframes.txt''" "[0, 12, 240]"]
  show ?thesis unfolding s by auto
qed


end
